theory Spec2Isabelle
  imports Complex_Main "HOL-Library.Sublist"
begin

section \<open>Internal coordinates and the B-matrix: the notebook's computations\<close>

text \<open>
  The source is the notebook \<^verbatim>\<open>13a_Internal-Coordinates-Bmatrix.ipynb\<close>. Its cells
  build a connectivity matrix, a catalog of internal coordinates, and transform a
  Cartesian gradient into internal coordinates through a generalised inverse.

  Modelling decisions, stated once:
  \<^item> numpy's float64 numbers are idealised as \<^typ>\<open>real\<close>: rounding is outside the model;
  \<^item> a two-dimensional numpy array is a record carrying its shape and its rows;
    a one-dimensional array is a list;
  \<^item> a raise of Python or numpy is the \<open>Inl\<close> branch of a sum;
  \<^item> \<^verbatim>\<open>numpy.linalg.eigh\<close> is a library routine: it is a parameter \<open>eigh\<close> of the model,
    and its documented contract is a hypothesis wherever a theorem needs it;
  \<^item> the helper package \<^verbatim>\<open>opt_helper\<close> (covRadii, v3d, stre, bend, intcosMisc) is
    not part of the sources: what the notebook takes from it is a parameter, or a
    definition marked as modelled from the specification.
\<close>

subsection \<open>Errors\<close>

datatype np_error = ValueError | IndexError | KeyError | ZeroDivision

definition bind_r :: "np_error + 'a \<Rightarrow> ('a \<Rightarrow> np_error + 'b) \<Rightarrow> np_error + 'b" where
  "bind_r r f = (case r of Inl e \<Rightarrow> Inl e | Inr a \<Rightarrow> f a)"

subsection \<open>Arrays\<close>

type_synonym vec = "real list"

record mat =
  nrows :: nat
  ncols :: nat
  rows :: "real list list"

text \<open>The array of shape \<open>(m, n)\<close> whose entry \<open>(i, j)\<close> is \<open>f i j\<close>.\<close>

definition mk_mat :: "nat \<Rightarrow> nat \<Rightarrow> (nat \<Rightarrow> nat \<Rightarrow> real) \<Rightarrow> mat" where
  "mk_mat m n f = \<lparr>nrows = m, ncols = n, rows = map (\<lambda>i. map (\<lambda>j. f i j) [0..<n]) [0..<m]\<rparr>"

definition entry :: "mat \<Rightarrow> nat \<Rightarrow> nat \<Rightarrow> real" where
  "entry A i j = rows A ! i ! j"

text \<open>The shape of an array agrees with its data.\<close>

definition mat_ok :: "mat \<Rightarrow> bool" where
  "mat_ok A = (length (rows A) = nrows A \<and> list_all (\<lambda>r. length r = ncols A) (rows A))"

text \<open>\<^verbatim>\<open>np.zeros((m, n), float)\<close>\<close>

definition np_zeros :: "nat \<Rightarrow> nat \<Rightarrow> mat" where
  "np_zeros m n = mk_mat m n (\<lambda>i j. 0)"

text \<open>\<^verbatim>\<open>A.T\<close> of a two-dimensional array; on a one-dimensional array \<^verbatim>\<open>.T\<close> is the identity.\<close>

definition transpose_np :: "mat \<Rightarrow> mat" where
  "transpose_np A = mk_mat (ncols A) (nrows A) (\<lambda>i j. entry A j i)"

definition transpose_1d :: "vec \<Rightarrow> vec" where
  "transpose_1d v = v"

text \<open>\<^verbatim>\<open>A[i, j] = v\<close>: an in-place store, IndexError out of range.\<close>

definition set_entry :: "mat \<Rightarrow> nat \<Rightarrow> nat \<Rightarrow> real \<Rightarrow> np_error + mat" where
  "set_entry A i j v =
     (if i < nrows A \<and> j < ncols A
      then Inr (A\<lparr>rows := (rows A)[i := (rows A ! i)[j := v]]\<rparr>)
      else Inl IndexError)"

text \<open>\<^verbatim>\<open>v[i]\<close> of a one-dimensional array, for a non-negative index.\<close>

definition get_1d :: "vec \<Rightarrow> nat \<Rightarrow> np_error + real" where
  "get_1d v i = (if i < length v then Inr (v ! i) else Inl IndexError)"

text \<open>The matrix product, the product of a matrix with a vector, the unit matrix
  and a diagonal matrix, as arrays.\<close>

definition mat_mul :: "mat \<Rightarrow> mat \<Rightarrow> mat" where
  "mat_mul A B = mk_mat (nrows A) (ncols B) (\<lambda>i j. \<Sum>k<ncols A. entry A i k * entry B k j)"

definition mat_vec :: "mat \<Rightarrow> vec \<Rightarrow> vec" where
  "mat_vec A x = map (\<lambda>i. \<Sum>k<ncols A. entry A i k * x ! k) [0..<nrows A]"

definition identity_mat :: "nat \<Rightarrow> mat" where
  "identity_mat n = mk_mat n n (\<lambda>i j. if i = j then 1 else 0)"

definition diag_mat :: "vec \<Rightarrow> mat" where
  "diag_mat v = mk_mat (length v) (length v) (\<lambda>i j. if i = j then v ! i else 0)"

text \<open>\<^verbatim>\<open>np.dot\<close> of two two-dimensional arrays, and of a two-dimensional with a
  one-dimensional array: ValueError when the shapes are not aligned.\<close>

definition np_dot :: "mat \<Rightarrow> mat \<Rightarrow> np_error + mat" where
  "np_dot A B = (if ncols A = nrows B then Inr (mat_mul A B) else Inl ValueError)"

definition np_dot_mv :: "mat \<Rightarrow> vec \<Rightarrow> np_error + vec" where
  "np_dot_mv A x = (if ncols A = length x then Inr (mat_vec A x) else Inl ValueError)"

text \<open>Division of floats: a zero divisor is reported (numpy yields \<open>inf\<close> with a
  warning, Python raises), so that a theorem can say it never happens.\<close>

definition np_div :: "real \<Rightarrow> real \<Rightarrow> np_error + real" where
  "np_div a b = (if b = 0 then Inl ZeroDivision else Inr (a / b))"

subsection \<open>The generalised inverse \<^verbatim>\<open>symmMatInv\<close>\<close>

text \<open>The zero threshold \<^verbatim>\<open>1.0e-10\<close> of the source.\<close>

definition eval_threshold :: real where
  "eval_threshold = 1 / 10 ^ 10"

text \<open>\<^verbatim>\<open>for i in range(dim): det *= evals[i]\<close>\<close>

fun det_loop :: "vec \<Rightarrow> nat list \<Rightarrow> real \<Rightarrow> np_error + real" where
  "det_loop evals [] det = Inr det"
| "det_loop evals (i # rest) det =
     bind_r (get_1d evals i) (\<lambda>ev. det_loop evals rest (det * ev))"

text \<open>
  \<^verbatim>\<open>for i in range(dim):
      if abs(evals[i]) > 1.0e-10:
          diagInv[i,i] = 1.0/evals[i]\<close>
\<close>

fun diagInv_loop :: "vec \<Rightarrow> nat list \<Rightarrow> mat \<Rightarrow> np_error + mat" where
  "diagInv_loop evals [] diagInv = Inr diagInv"
| "diagInv_loop evals (i # rest) diagInv =
     bind_r (get_1d evals i) (\<lambda>ev.
       if \<bar>ev\<bar> > eval_threshold
       then bind_r (np_div 1 ev) (\<lambda>q.
              bind_r (set_entry diagInv i i q) (\<lambda>diagInv'. diagInv_loop evals rest diagInv'))
       else diagInv_loop evals rest diagInv)"

text \<open>
  \<^verbatim>\<open>def symmMatInv(A)\<close>. \<open>eigh\<close> stands for \<^verbatim>\<open>np.linalg.eigh\<close>: it returns the eigenvalues
  and the array whose columns are the eigenvectors; the source transposes it, so that
  the rows of \<open>evects\<close> are the eigenvectors. The product \<open>det\<close> is computed and not used.
\<close>

definition symmMatInv :: "(mat \<Rightarrow> vec \<times> mat) \<Rightarrow> mat \<Rightarrow> np_error + mat" where
  "symmMatInv eigh A =
     (let dim = nrows A;
          (evals, evects0) = eigh A;
          evects = transpose_np evects0
      in bind_r (det_loop evals [0..<dim] 1) (\<lambda>det.
         bind_r (diagInv_loop evals [0..<dim] (np_zeros dim dim)) (\<lambda>diagInv.
         bind_r (np_dot diagInv evects) (\<lambda>tmpMat.
         np_dot (transpose_np evects) tmpMat))))"

text \<open>The entry \<open>1/\<lambda>\<close> above the threshold and \<open>0\<close> otherwise, in the specification's words.\<close>

definition inv_eval :: "real \<Rightarrow> real" where
  "inv_eval ev = (if \<bar>ev\<bar> > eval_threshold then 1 / ev else 0)"

text \<open>What \<^verbatim>\<open>np.linalg.eigh\<close> promises about shapes, and its full contract: the
  eigenvalues \<open>w\<close> and an orthonormal array \<open>V\<close> of eigenvectors (as columns)
  with \<open>A = V diag(w) V\<^sup>T\<close>.\<close>

definition eigh_shape :: "(mat \<Rightarrow> vec \<times> mat) \<Rightarrow> mat \<Rightarrow> bool" where
  "eigh_shape eigh A =
     (case eigh A of (w, V) \<Rightarrow>
        length w = nrows A \<and> mat_ok V \<and> nrows V = nrows A \<and> ncols V = nrows A)"

definition eigh_contract :: "(mat \<Rightarrow> vec \<times> mat) \<Rightarrow> mat \<Rightarrow> bool" where
  "eigh_contract eigh A =
     (case eigh A of (w, V) \<Rightarrow>
        length w = nrows A \<and> mat_ok V \<and> nrows V = nrows A \<and> ncols V = nrows A \<and>
        mat_mul (transpose_np V) V = identity_mat (nrows A) \<and>
        mat_mul V (transpose_np V) = identity_mat (nrows A) \<and>
        mat_mul V (mat_mul (diag_mat w) (transpose_np V)) = A)"

subsection \<open>The gradient transformations\<close>

text \<open>
  \<^verbatim>\<open>temp_arr = np.dot(B,gx.T); G = np.dot(B, B.T); Ginv = symmMatInv(G);
  gq = np.dot(Ginv,temp_arr.T)\<close>
\<close>

definition gq_of :: "(mat \<Rightarrow> vec \<times> mat) \<Rightarrow> mat \<Rightarrow> vec \<Rightarrow> np_error + vec" where
  "gq_of eigh B gx =
     bind_r (np_dot_mv B (transpose_1d gx)) (\<lambda>temp_arr.
     bind_r (np_dot B (transpose_np B)) (\<lambda>G.
     bind_r (symmMatInv eigh G) (\<lambda>Ginv.
     np_dot_mv Ginv (transpose_1d temp_arr))))"


text \<open>\<^verbatim>\<open>g[:] = [0 if abs(x) < 1.0e-16 else x for x in g]\<close>, as a value.\<close>

definition remove_noise :: "vec \<Rightarrow> vec" where
  "remove_noise g = map (\<lambda>x. if \<bar>x\<bar> < 1 / 10 ^ 16 then 0 else x) g"

subsection \<open>Pairs of atoms\<close>

text \<open>\<^verbatim>\<open>itertools.combinations(range(n), 2)\<close> and \<^verbatim>\<open>itertools.permutations(range(n), 2)\<close>,
  in the order in which the library yields them.\<close>

definition combinations2 :: "nat \<Rightarrow> (nat \<times> nat) list" where
  "combinations2 n = concat (map (\<lambda>i. map (\<lambda>j. (i, j)) [Suc i..<n]) [0..<n])"

definition permutations2 :: "nat \<Rightarrow> (nat \<times> nat) list" where
  "permutations2 n = concat (map (\<lambda>i. map (\<lambda>j. (i, j)) (filter (\<lambda>j. j \<noteq> i) [0..<n])) [0..<n])"

subsection \<open>The connectivity matrix\<close>

text \<open>
  The geometry \<^verbatim>\<open>xyzGeom\<close> is the list of its rows, one point per atom; \<^verbatim>\<open>Z\<close> is the list
  of atomic numbers, built over \<^verbatim>\<open>range(Natom)\<close>. The boolean array \<^verbatim>\<open>C\<close> is the list of its rows. The loops run
  over \<^verbatim>\<open>range(Natom)\<close>, the shape of \<^verbatim>\<open>C\<close> is \<^verbatim>\<open>(Natom, Natom)\<close> and the geometry has
  \<^verbatim>\<open>Natom\<close> rows, so these indexings stay in range.

  The table \<^verbatim>\<open>covRadii.R\<close> and the function \<^verbatim>\<open>v3d.dist\<close> belong to \<^verbatim>\<open>opt_helper\<close>: they are the
  parameters \<open>covR\<close> (a lookup that can fail) and \<open>v3d_dist\<close>.
\<close>

type_synonym bmat = "bool list list"

definition covR_lookup :: "(nat \<Rightarrow> real option) \<Rightarrow> nat \<Rightarrow> np_error + real" where
  "covR_lookup covR z = (case covR z of None \<Rightarrow> Inl KeyError | Some r \<Rightarrow> Inr r)"

text \<open>\<^verbatim>\<open>C[i,j] = b\<close>\<close>

definition set_bool :: "bmat \<Rightarrow> nat \<Rightarrow> nat \<Rightarrow> bool \<Rightarrow> bmat" where
  "set_bool C i j b = C[i := (C ! i)[j := b]]"

text \<open>The constants \<^verbatim>\<open>1.3\<close> and \<^verbatim>\<open>0.52917720859\<close> of the source.\<close>

definition bond_factor :: real where
  "bond_factor = 13 / 10"

definition bohr_per_angstrom :: real where
  "bohr_per_angstrom = 52917720859 / 100000000000"

text \<open>
  \<^verbatim>\<open>for i,j in combinations( range(Natom), 2):
    R = v3d.dist( xyzGeom[i], xyzGeom[j])
    Rcov = (covRadii.R[Z[i]] + covRadii.R[Z[j]])/0.52917720859
    if R < 1.3 * Rcov:
      C[i,j] = C[j,i] = True\<close>
\<close>

fun connectivity_loop ::
  "(vec \<Rightarrow> vec \<Rightarrow> real) \<Rightarrow> (nat \<Rightarrow> real option) \<Rightarrow> nat list \<Rightarrow> vec list \<Rightarrow>
   (nat \<times> nat) list \<Rightarrow> bmat \<Rightarrow> np_error + bmat" where
  "connectivity_loop v3d_dist covR Z xyzGeom [] C = Inr C"
| "connectivity_loop v3d_dist covR Z xyzGeom ((i, j) # rest) C =
     (let R = v3d_dist (xyzGeom ! i) (xyzGeom ! j) in
      bind_r (covR_lookup covR (Z ! i)) (\<lambda>ri.
      bind_r (covR_lookup covR (Z ! j)) (\<lambda>rj.
        let Rcov = (ri + rj) / bohr_per_angstrom in
        if R < bond_factor * Rcov
        then connectivity_loop v3d_dist covR Z xyzGeom rest (set_bool (set_bool C i j True) j i True)
        else connectivity_loop v3d_dist covR Z xyzGeom rest C)))"

text \<open>\<^verbatim>\<open>C = np.zeros( (Natom, Natom), bool )\<close> followed by the loop.\<close>

definition connectivity ::
  "(vec \<Rightarrow> vec \<Rightarrow> real) \<Rightarrow> (nat \<Rightarrow> real option) \<Rightarrow> nat list \<Rightarrow> vec list \<Rightarrow> nat \<Rightarrow>
   np_error + bmat" where
  "connectivity v3d_dist covR Z xyzGeom Natom =
     connectivity_loop v3d_dist covR Z xyzGeom (combinations2 Natom)
       (replicate Natom (replicate Natom False))"

text \<open>The test of the loop, for the pair \<open>(i, j)\<close>.\<close>

definition bonded_test ::
  "(vec \<Rightarrow> vec \<Rightarrow> real) \<Rightarrow> (nat \<Rightarrow> real option) \<Rightarrow> nat list \<Rightarrow> vec list \<Rightarrow> nat \<Rightarrow> nat \<Rightarrow> bool" where
  "bonded_test v3d_dist covR Z xyzGeom i j =
     (v3d_dist (xyzGeom ! i) (xyzGeom ! j)
        < bond_factor * ((the (covR (Z ! i)) + the (covR (Z ! j))) / bohr_per_angstrom))"

text \<open>The shape \<open>(n, n)\<close> of a boolean array.\<close>

definition bmat_ok :: "nat \<Rightarrow> bmat \<Rightarrow> bool" where
  "bmat_ok n C = (length C = n \<and> list_all (\<lambda>r. length r = n) C)"

subsection \<open>The catalog of internal coordinates\<close>

text \<open>
  The coordinate objects: the notebook constructs \<^verbatim>\<open>stre.STRE(i, j)\<close> and
  \<^verbatim>\<open>bend.BEND(i, j, k)\<close>; the data model also has a dihedral.
\<close>

datatype intco =
    is_STRE: STRE nat nat
  | is_BEND: BEND nat nat nat
  | is_DIHEDRAL: DIHEDRAL nat nat nat nat

text \<open>
  \<^verbatim>\<open>if c not in intcos: intcos.append(c)\<close>. The test \<^verbatim>\<open>in\<close> compares with the \<^verbatim>\<open>__eq__\<close> of
  the coordinate classes, which belong to \<^verbatim>\<open>opt_helper\<close>: it is the parameter \<open>eq\<close>.
\<close>

definition add_intco :: "(intco \<Rightarrow> intco \<Rightarrow> bool) \<Rightarrow> intco list \<Rightarrow> intco \<Rightarrow> intco list" where
  "add_intco eq intcos c = (if list_ex (\<lambda>e. eq e c) intcos then intcos else intcos @ [c])"

text \<open>
  \<^verbatim>\<open>for i,j in combinations( range(Natom), 2 ):
    if C[i,j]:
      s = stre.STRE(i, j)
      if s not in intcos:
        intcos.append(s)\<close>
\<close>

fun stre_loop ::
  "bmat \<Rightarrow> (intco \<Rightarrow> intco \<Rightarrow> bool) \<Rightarrow> (nat \<times> nat) list \<Rightarrow> intco list \<Rightarrow> intco list" where
  "stre_loop C eq [] intcos = intcos"
| "stre_loop C eq ((i, j) # rest) intcos =
     stre_loop C eq rest (if C ! i ! j then add_intco eq intcos (STRE i j) else intcos)"

text \<open>
  \<^verbatim>\<open>for k in range(i+1,Natom):
      if C[j,k]:
        (check, val) = v3d.angle(xyzGeom[i], xyzGeom[j], xyzGeom[k])
        if not check: continue
        b = bend.BEND(i, j, k)
        if b not in intcos:
          intcos.append(b)\<close>

  The function \<^verbatim>\<open>v3d.angle\<close> belongs to \<^verbatim>\<open>opt_helper\<close>: it is the parameter \<open>angle\<close>.
\<close>

fun bend_k_loop ::
  "bmat \<Rightarrow> (vec \<Rightarrow> vec \<Rightarrow> vec \<Rightarrow> bool \<times> real) \<Rightarrow> (intco \<Rightarrow> intco \<Rightarrow> bool) \<Rightarrow> vec list \<Rightarrow>
   nat \<Rightarrow> nat \<Rightarrow> nat list \<Rightarrow> intco list \<Rightarrow> intco list" where
  "bend_k_loop C angle eq xyzGeom i j [] intcos = intcos"
| "bend_k_loop C angle eq xyzGeom i j (k # rest) intcos =
     bend_k_loop C angle eq xyzGeom i j rest
       (if C ! j ! k
        then (case angle (xyzGeom ! i) (xyzGeom ! j) (xyzGeom ! k) of
                (check, val) \<Rightarrow>
                  if \<not> check then intcos else add_intco eq intcos (BEND i j k))
        else intcos)"

text \<open>
  \<^verbatim>\<open>for i,j in permutations( range(Natom), 2):
    if C[i,j]:
      for k in range(i+1,Natom):  # make i<k
        ...\<close>
\<close>

fun bend_loop ::
  "bmat \<Rightarrow> (vec \<Rightarrow> vec \<Rightarrow> vec \<Rightarrow> bool \<times> real) \<Rightarrow> (intco \<Rightarrow> intco \<Rightarrow> bool) \<Rightarrow> vec list \<Rightarrow>
   nat \<Rightarrow> (nat \<times> nat) list \<Rightarrow> intco list \<Rightarrow> intco list" where
  "bend_loop C angle eq xyzGeom Natom [] intcos = intcos"
| "bend_loop C angle eq xyzGeom Natom ((i, j) # rest) intcos =
     bend_loop C angle eq xyzGeom Natom rest
       (if C ! i ! j then bend_k_loop C angle eq xyzGeom i j [Suc i..<Natom] intcos else intcos)"

text \<open>The cell that builds \<^verbatim>\<open>intcos\<close>: it starts from the empty list, adds the stretches,
  then the bends.\<close>

definition build_intcos ::
  "bmat \<Rightarrow> (vec \<Rightarrow> vec \<Rightarrow> vec \<Rightarrow> bool \<times> real) \<Rightarrow> (intco \<Rightarrow> intco \<Rightarrow> bool) \<Rightarrow> vec list \<Rightarrow>
   nat \<Rightarrow> intco list" where
  "build_intcos C angle eq xyzGeom Natom =
     bend_loop C angle eq xyzGeom Natom (permutations2 Natom)
       (stre_loop C eq (combinations2 Natom) [])"

text \<open>Properties of a catalog: no entry equals an earlier one under \<open>eq\<close>; the atoms of
  a coordinate are distinct and below \<open>Natom\<close>.\<close>

definition no_duplicates :: "(intco \<Rightarrow> intco \<Rightarrow> bool) \<Rightarrow> intco list \<Rightarrow> bool" where
  "no_duplicates eq intcos = (\<forall>q<length intcos. \<forall>p<q. \<not> eq (intcos ! p) (intcos ! q))"

fun atoms_of :: "intco \<Rightarrow> nat list" where
  "atoms_of (STRE a b) = [a, b]"
| "atoms_of (BEND a b c) = [a, b, c]"
| "atoms_of (DIHEDRAL a b c d) = [a, b, c, d]"

definition atoms_ok :: "nat \<Rightarrow> intco \<Rightarrow> bool" where
  "atoms_ok Natom c = (distinct (atoms_of c) \<and> list_all (\<lambda>a. a < Natom) (atoms_of c))"

text \<open>
  Modelled from the spec: the equality rule of the coordinate classes (\<^verbatim>\<open>__eq__\<close> of
  \<^verbatim>\<open>stre.STRE\<close> and \<^verbatim>\<open>bend.BEND\<close> in \<^verbatim>\<open>opt_helper\<close>, not in the sources). Two coordinates
  are equal iff they are the same variant with the same atoms: a stretch is unordered
  in its two atoms, a bend has its vertex in the middle and its end atoms unordered, a
  dihedral equals its reversal.
\<close>

fun intco_eq :: "intco \<Rightarrow> intco \<Rightarrow> bool" where
  "intco_eq (STRE a b) (STRE a' b') = ((a = a' \<and> b = b') \<or> (a = b' \<and> b = a'))"
| "intco_eq (BEND a b c) (BEND a' b' c') = (b = b' \<and> ((a = a' \<and> c = c') \<or> (a = c' \<and> c = a')))"
| "intco_eq (DIHEDRAL a b c d) (DIHEDRAL a' b' c' d') =
     ((a = a' \<and> b = b' \<and> c = c' \<and> d = d') \<or> (a = d' \<and> b = c' \<and> c = b' \<and> d = a'))"
| "intco_eq _ _ = False"

subsection \<open>Vector helpers\<close>

text \<open>A point is a row of the geometry array: a list of three coordinates.\<close>

definition dot3 :: "vec \<Rightarrow> vec \<Rightarrow> real" where
  "dot3 u v = (\<Sum>k<3. u ! k * v ! k)"

definition sub3 :: "vec \<Rightarrow> vec \<Rightarrow> vec" where
  "sub3 u v = map (\<lambda>k. u ! k - v ! k) [0..<3]"

definition norm3 :: "vec \<Rightarrow> real" where
  "norm3 v = sqrt (dot3 v v)"

definition cross3 :: "vec \<Rightarrow> vec \<Rightarrow> vec" where
  "cross3 u v = [u ! 1 * v ! 2 - u ! 2 * v ! 1, u ! 2 * v ! 0 - u ! 0 * v ! 2,
                 u ! 0 * v ! 1 - u ! 1 * v ! 0]"

text \<open>Three points on one line (two equal points included): the arms from the middle
  point have a zero cross product.\<close>

definition collinear3 :: "vec \<Rightarrow> vec \<Rightarrow> vec \<Rightarrow> bool" where
  "collinear3 A B C = (cross3 (sub3 A B) (sub3 C B) = [0, 0, 0])"

text \<open>
  Modelled from the spec: \<^verbatim>\<open>v3d.dist\<close> of \<^verbatim>\<open>opt_helper\<close> is not in the sources. The
  specification calls it the Euclidean distance of two points.
\<close>

definition dist_v3d :: "vec \<Rightarrow> vec \<Rightarrow> real" where
  "dist_v3d A B = norm3 (sub3 B A)"

text \<open>
  Modelled from the spec: the normalisation of a displacement (\<^verbatim>\<open>v3d.eAB\<close> of
  \<^verbatim>\<open>opt_helper\<close>, not in the sources): the unit vector from \<open>A\<close> to \<open>B\<close>, a failure
  when the displacement has length zero.
\<close>

definition eAB_v3d :: "vec \<Rightarrow> vec \<Rightarrow> vec option" where
  "eAB_v3d A B =
     (let d = sub3 B A; n = norm3 d
      in if n = 0 then None else Some (map (\<lambda>c. c / n) d))"

text \<open>
  Modelled from the spec: \<^verbatim>\<open>v3d.angle\<close> of \<^verbatim>\<open>opt_helper\<close> is not in the sources. The
  specification: the angle at the vertex \<open>B\<close> between the two bond vectors, in \<open>[0, \<pi>]\<close>,
  computed by normalising the two displacements and taking the inverse cosine of their
  dot product; the degenerate cases (an arm of length zero, an angle of \<open>0\<close> or \<open>\<pi>\<close>,
  that is collinear points) are reported as a failure, the first component \<open>False\<close>.
\<close>

definition angle_v3d :: "vec \<Rightarrow> vec \<Rightarrow> vec \<Rightarrow> bool \<times> real" where
  "angle_v3d A B C =
     (case eAB_v3d B A of
        None \<Rightarrow> (False, 0)
      | Some eBA \<Rightarrow>
          (case eAB_v3d B C of
             None \<Rightarrow> (False, 0)
           | Some eBC \<Rightarrow>
               let dotprod = dot3 eBA eBC
               in if dotprod = 1 \<or> dotprod = - 1 then (False, 0) else (True, arccos dotprod)))"

text \<open>A bend of the catalog passed the check of the angle routine.\<close>

fun bend_checked :: "(vec \<Rightarrow> vec \<Rightarrow> vec \<Rightarrow> bool \<times> real) \<Rightarrow> vec list \<Rightarrow> intco \<Rightarrow> bool" where
  "bend_checked angle xyzGeom (BEND i j k) =
     fst (angle (xyzGeom ! i) (xyzGeom ! j) (xyzGeom ! k))"
| "bend_checked angle xyzGeom _ = True"

subsection \<open>The B-matrix\<close>


definition stre_DqDx :: "vec list \<Rightarrow> nat \<Rightarrow> nat \<Rightarrow> vec option" where
  "stre_DqDx xyzGeom a b =
     (case eAB_v3d (xyzGeom ! a) (xyzGeom ! b) of
        None \<Rightarrow> None
      | Some e \<Rightarrow>
          Some (map (\<lambda>col. if col div 3 = a then - (e ! (col mod 3))
                           else if col div 3 = b then e ! (col mod 3) else 0)
                    [0..<3 * length xyzGeom]))"

fun DqDx :: "(vec list \<Rightarrow> intco \<Rightarrow> vec option) \<Rightarrow> vec list \<Rightarrow> intco \<Rightarrow> vec option" where
  "DqDx other xyzGeom (STRE a b) = stre_DqDx xyzGeom a b"
| "DqDx other xyzGeom c = other xyzGeom c"

fun Bmat_rows ::
  "(vec list \<Rightarrow> intco \<Rightarrow> vec option) \<Rightarrow> vec list \<Rightarrow> intco list \<Rightarrow> vec list option" where
  "Bmat_rows other xyzGeom [] = Some []"
| "Bmat_rows other xyzGeom (c # cs) =
     (case DqDx other xyzGeom c of
        None \<Rightarrow> None
      | Some r \<Rightarrow>
          (case Bmat_rows other xyzGeom cs of None \<Rightarrow> None | Some rs \<Rightarrow> Some (r # rs)))"

definition Bmat :: "(vec list \<Rightarrow> intco \<Rightarrow> vec option) \<Rightarrow> intco list \<Rightarrow> vec list \<Rightarrow> mat option" where
  "Bmat other intcos xyzGeom =
     (case Bmat_rows other xyzGeom intcos of
        None \<Rightarrow> None
      | Some rs \<Rightarrow> Some \<lparr>nrows = length intcos, ncols = 3 * length xyzGeom, rows = rs\<rparr>)"

subsection \<open>The cells over a store of arrays\<close>

text \<open>
  To say which arrays a cell changes, the arrays live in a store: a buffer per address,
  and the next free address. An array object is a handle: the address of its buffer and a
  shape. \<^verbatim>\<open>np.array(obj)\<close> copies into a new buffer; \<^verbatim>\<open>np.reshape\<close> returns a view, a handle
  on the same buffer; \<^verbatim>\<open>np.zeros\<close>, \<^verbatim>\<open>np.dot\<close>, \<^verbatim>\<open>np.linalg.eigh\<close> and \<^verbatim>\<open>intcosMisc.Bmat\<close>
  return new arrays; \<^verbatim>\<open>a[:] = ...\<close> and \<^verbatim>\<open>a[i,j] = ...\<close> store into the buffer of \<open>a\<close>.
  \<^verbatim>\<open>.T\<close> is a view that the cells only read: reading it is the transpose of what is read.
  The functions of \<^verbatim>\<open>opt_helper\<close> and \<^verbatim>\<open>eigh\<close> are parameters that compute from the values
  they are given. A computation returns its result, or the error raised, and the store.
\<close>

type_synonym addr = nat

datatype buffer = Floats "real list" | Bools "bool list"

record store =
  bufs :: "addr \<Rightarrow> buffer"
  brk :: addr

record ndarray =
  base :: addr
  shape :: "nat list"

type_synonym 'a st = "store \<Rightarrow> (np_error + 'a) \<times> store"

definition st_return :: "'a \<Rightarrow> 'a st" where
  "st_return a s = (Inr a, s)"

definition st_lift :: "np_error + 'a \<Rightarrow> 'a st" where
  "st_lift r s = (r, s)"

definition st_bind :: "'a st \<Rightarrow> ('a \<Rightarrow> 'b st) \<Rightarrow> 'b st" where
  "st_bind m f s = (case m s of (Inl e, s') \<Rightarrow> (Inl e, s') | (Inr a, s') \<Rightarrow> f a s')"

text \<open>A new array with the given buffer.\<close>

definition alloc :: "buffer \<Rightarrow> nat list \<Rightarrow> ndarray st" where
  "alloc b shp s =
     (Inr \<lparr>base = brk s, shape = shp\<rparr>, s\<lparr>bufs := (bufs s)(brk s := b), brk := Suc (brk s)\<rparr>)"

definition new_vec :: "vec \<Rightarrow> ndarray st" where
  "new_vec x = alloc (Floats x) [length x]"

definition new_mat :: "mat \<Rightarrow> ndarray st" where
  "new_mat A = alloc (Floats (concat (rows A))) [nrows A, ncols A]"

text \<open>\<^verbatim>\<open>np.array(obj)\<close>: a copy. \<^verbatim>\<open>np.reshape(a, shp)\<close>: a view.\<close>

definition np_array :: "ndarray \<Rightarrow> ndarray st" where
  "np_array a s = alloc (bufs s (base a)) (shape a) s"

definition np_reshape :: "ndarray \<Rightarrow> nat list \<Rightarrow> ndarray st" where
  "np_reshape a shp =
     (if prod_list shp = prod_list (shape a) then st_return (a\<lparr>shape := shp\<rparr>)
      else st_lift (Inl ValueError))"

text \<open>Reading an array of floats as a vector, as a matrix, as the list of its rows;
  reading a boolean matrix.\<close>

definition load_vec :: "ndarray \<Rightarrow> vec st" where
  "load_vec a s =
     (case bufs s (base a) of
        Floats xs \<Rightarrow> (if shape a = [length xs] then Inr xs else Inl ValueError, s)
      | Bools bs \<Rightarrow> (Inl ValueError, s))"

definition load_mat :: "ndarray \<Rightarrow> mat st" where
  "load_mat a s =
     (case bufs s (base a) of
        Floats xs \<Rightarrow>
          (case shape a of
             [m, n] \<Rightarrow> (if length xs = m * n then Inr (mk_mat m n (\<lambda>i j. xs ! (i * n + j)))
                         else Inl ValueError, s)
           | _ \<Rightarrow> (Inl ValueError, s))
      | Bools bs \<Rightarrow> (Inl ValueError, s))"

definition load_rows :: "ndarray \<Rightarrow> vec list st" where
  "load_rows a = st_bind (load_mat a) (\<lambda>A. st_return (rows A))"

definition load_bmat :: "ndarray \<Rightarrow> bmat st" where
  "load_bmat a s =
     (case bufs s (base a) of
        Bools bs \<Rightarrow>
          (case shape a of
             [m, n] \<Rightarrow> (if length bs = m * n
                         then Inr (map (\<lambda>i. map (\<lambda>j. bs ! (i * n + j)) [0..<n]) [0..<m])
                         else Inl ValueError, s)
           | _ \<Rightarrow> (Inl ValueError, s))
      | Floats xs \<Rightarrow> (Inl ValueError, s))"

text \<open>\<^verbatim>\<open>a[:] = xs\<close> on a one-dimensional array, \<^verbatim>\<open>A[i,j] = v\<close> on a matrix of floats,
  \<^verbatim>\<open>C[i,j] = b\<close> on a boolean matrix: stores into the buffer of the handle.\<close>

definition assign_all :: "ndarray \<Rightarrow> vec \<Rightarrow> unit st" where
  "assign_all a xs s =
     (case bufs s (base a) of
        Floats old \<Rightarrow>
          (if shape a = [length old] \<and> length xs = length old
           then (Inr (), s\<lparr>bufs := (bufs s)(base a := Floats xs)\<rparr>)
           else (Inl ValueError, s))
      | Bools bs \<Rightarrow> (Inl ValueError, s))"

definition assign_entry :: "ndarray \<Rightarrow> nat \<Rightarrow> nat \<Rightarrow> real \<Rightarrow> unit st" where
  "assign_entry a i j v s =
     (case (bufs s (base a), shape a) of
        (Floats old, [m, n]) \<Rightarrow>
          (if i < m \<and> j < n \<and> length old = m * n
           then (Inr (), s\<lparr>bufs := (bufs s)(base a := Floats (old[i * n + j := v]))\<rparr>)
           else (Inl IndexError, s))
      | _ \<Rightarrow> (Inl ValueError, s))"

definition assign_bool :: "ndarray \<Rightarrow> nat \<Rightarrow> nat \<Rightarrow> bool \<Rightarrow> unit st" where
  "assign_bool a i j b s =
     (case (bufs s (base a), shape a) of
        (Bools old, [m, n]) \<Rightarrow>
          (if i < m \<and> j < n \<and> length old = m * n
           then (Inr (), s\<lparr>bufs := (bufs s)(base a := Bools (old[i * n + j := b]))\<rparr>)
           else (Inl IndexError, s))
      | _ \<Rightarrow> (Inl ValueError, s))"

text \<open>
  The cell of the connectivity matrix:
  \<^verbatim>\<open>xyzGeom = np.array(mol.geometry())\<close>, \<^verbatim>\<open>C = np.zeros( (Natom, Natom), bool )\<close>, the loop.
\<close>

fun connectivity_loop_st ::
  "(vec \<Rightarrow> vec \<Rightarrow> real) \<Rightarrow> (nat \<Rightarrow> real option) \<Rightarrow> nat list \<Rightarrow> ndarray \<Rightarrow>
   (nat \<times> nat) list \<Rightarrow> ndarray \<Rightarrow> unit st" where
  "connectivity_loop_st v3d_dist covR Z xyzGeom [] C = st_return ()"
| "connectivity_loop_st v3d_dist covR Z xyzGeom ((i, j) # rest) C =
     st_bind (load_rows xyzGeom) (\<lambda>x.
     let R = v3d_dist (x ! i) (x ! j) in
     st_bind (st_lift (covR_lookup covR (Z ! i))) (\<lambda>ri.
     st_bind (st_lift (covR_lookup covR (Z ! j))) (\<lambda>rj.
       let Rcov = (ri + rj) / bohr_per_angstrom in
       if R < bond_factor * Rcov
       then st_bind (assign_bool C i j True) (\<lambda>_.
            st_bind (assign_bool C j i True) (\<lambda>_.
              connectivity_loop_st v3d_dist covR Z xyzGeom rest C))
       else connectivity_loop_st v3d_dist covR Z xyzGeom rest C)))"

definition connectivity_cell ::
  "(vec \<Rightarrow> vec \<Rightarrow> real) \<Rightarrow> (nat \<Rightarrow> real option) \<Rightarrow> nat list \<Rightarrow> ndarray \<Rightarrow> nat \<Rightarrow>
   (ndarray \<times> ndarray) st" where
  "connectivity_cell v3d_dist covR Z mol_geometry Natom =
     st_bind (np_array mol_geometry) (\<lambda>xyzGeom.
     st_bind (alloc (Bools (replicate (Natom * Natom) False)) [Natom, Natom]) (\<lambda>C.
     st_bind (connectivity_loop_st v3d_dist covR Z xyzGeom (combinations2 Natom) C) (\<lambda>_.
     st_return (xyzGeom, C))))"

text \<open>The cell of the catalog: it reads \<^verbatim>\<open>C\<close> and \<^verbatim>\<open>xyzGeom\<close> and appends to its own list.\<close>

definition intcos_cell ::
  "(vec \<Rightarrow> vec \<Rightarrow> vec \<Rightarrow> bool \<times> real) \<Rightarrow> (intco \<Rightarrow> intco \<Rightarrow> bool) \<Rightarrow> ndarray \<Rightarrow> ndarray \<Rightarrow>
   nat \<Rightarrow> intco list st" where
  "intcos_cell angle eq C xyzGeom Natom =
     st_bind (load_bmat C) (\<lambda>c.
     st_bind (load_rows xyzGeom) (\<lambda>x.
     st_return (build_intcos c angle eq x Natom)))"

text \<open>
  \<^verbatim>\<open>gx = np.reshape( np.array(psi4gradientMatrix), (3*Natom))\<close>
  \<^verbatim>\<open>gx[:] = [0 if abs(x) < 1.0e-16 else x for x in gx]\<close>
\<close>

definition gx_cell :: "ndarray \<Rightarrow> nat \<Rightarrow> ndarray st" where
  "gx_cell psi4gradientMatrix Natom =
     st_bind (np_array psi4gradientMatrix) (\<lambda>copy.
     st_bind (np_reshape copy [3 * Natom]) (\<lambda>gx.
     st_bind (load_vec gx) (\<lambda>g.
     st_bind (assign_all gx (remove_noise g)) (\<lambda>_.
     st_return gx))))"

text \<open>\<^verbatim>\<open>symmMatInv\<close> over the store: \<^verbatim>\<open>diagInv\<close> is a new array that the loop fills.\<close>

fun diagInv_loop_st :: "vec \<Rightarrow> nat list \<Rightarrow> ndarray \<Rightarrow> unit st" where
  "diagInv_loop_st evals [] diagInv = st_return ()"
| "diagInv_loop_st evals (i # rest) diagInv =
     st_bind (st_lift (get_1d evals i)) (\<lambda>ev.
       if \<bar>ev\<bar> > eval_threshold
       then st_bind (st_lift (np_div 1 ev)) (\<lambda>q.
            st_bind (assign_entry diagInv i i q) (\<lambda>_. diagInv_loop_st evals rest diagInv))
       else diagInv_loop_st evals rest diagInv)"

definition symmMatInv_st :: "(mat \<Rightarrow> vec \<times> mat) \<Rightarrow> ndarray \<Rightarrow> ndarray st" where
  "symmMatInv_st eigh A =
     st_bind (load_mat A) (\<lambda>a.
     let dim = nrows a; (w, v) = eigh a in
     st_bind (new_vec w) (\<lambda>evals.
     st_bind (new_mat v) (\<lambda>evects0.
     st_bind (load_vec evals) (\<lambda>evs.
     st_bind (st_lift (det_loop evs [0..<dim] 1)) (\<lambda>det.
     st_bind (new_mat (np_zeros dim dim)) (\<lambda>diagInv.
     st_bind (diagInv_loop_st evs [0..<dim] diagInv) (\<lambda>_.
     st_bind (load_mat diagInv) (\<lambda>d.
     st_bind (load_mat evects0) (\<lambda>e0.
     st_bind (st_lift (np_dot d (transpose_np e0))) (\<lambda>t.
     st_bind (new_mat t) (\<lambda>tmpMat.
     st_bind (load_mat tmpMat) (\<lambda>tm.
     st_bind (st_lift (np_dot (transpose_np (transpose_np e0)) tm)) (\<lambda>ai.
     new_mat ai)))))))))))))"

text \<open>
  \<^verbatim>\<open>B = intcosMisc.Bmat(intcos, xyzGeom)\<close>, \<^verbatim>\<open>temp_arr = np.dot(B,gx.T)\<close>, \<^verbatim>\<open>G = np.dot(B, B.T)\<close>,
  \<^verbatim>\<open>Ginv = symmMatInv(G)\<close>, \<^verbatim>\<open>gq = np.dot(Ginv,temp_arr.T)\<close>; then
  \<^verbatim>\<open>gx2 = np.dot(B.T,gq)\<close> and \<^verbatim>\<open>gx2[:] = [0 if abs(x) < 1.0e-16 else x for x in gx2]\<close>.
  \<open>Bm\<close> stands for \<^verbatim>\<open>intcosMisc.Bmat\<close>.
\<close>

definition gq_cell ::
  "(mat \<Rightarrow> vec \<times> mat) \<Rightarrow> (intco list \<Rightarrow> vec list \<Rightarrow> mat option) \<Rightarrow> intco list \<Rightarrow> ndarray \<Rightarrow>
   ndarray \<Rightarrow> (ndarray \<times> ndarray) st" where
  "gq_cell eigh Bm intcos xyzGeom gx =
     st_bind (load_rows xyzGeom) (\<lambda>x.
     st_bind (st_lift (case Bm intcos x of None \<Rightarrow> Inl ValueError | Some b \<Rightarrow> Inr b)) (\<lambda>b.
     st_bind (new_mat b) (\<lambda>B.
     st_bind (load_mat B) (\<lambda>b1.
     st_bind (load_vec gx) (\<lambda>g.
     st_bind (st_lift (np_dot_mv b1 (transpose_1d g))) (\<lambda>t.
     st_bind (new_vec t) (\<lambda>temp_arr.
     st_bind (st_lift (np_dot b1 (transpose_np b1))) (\<lambda>gm.
     st_bind (new_mat gm) (\<lambda>G.
     st_bind (symmMatInv_st eigh G) (\<lambda>Ginv.
     st_bind (load_mat Ginv) (\<lambda>gi.
     st_bind (load_vec temp_arr) (\<lambda>t1.
     st_bind (st_lift (np_dot_mv gi (transpose_1d t1))) (\<lambda>q.
     st_bind (new_vec q) (\<lambda>gq.
     st_return (B, gq)))))))))))))))"

definition gx2_cell :: "ndarray \<Rightarrow> ndarray \<Rightarrow> ndarray st" where
  "gx2_cell B gq =
     st_bind (load_mat B) (\<lambda>b.
     st_bind (load_vec gq) (\<lambda>q.
     st_bind (st_lift (np_dot_mv (transpose_np b) q)) (\<lambda>r.
     st_bind (new_vec r) (\<lambda>gx2.
     st_bind (load_vec gx2) (\<lambda>g.
     st_bind (assign_all gx2 (remove_noise g)) (\<lambda>_.
     st_return gx2))))))"

text \<open>The cells in the notebook's order, from the geometry and the gradient that psi4
  supplies.\<close>

definition notebook ::
  "(vec \<Rightarrow> vec \<Rightarrow> real) \<Rightarrow> (nat \<Rightarrow> real option) \<Rightarrow> (vec \<Rightarrow> vec \<Rightarrow> vec \<Rightarrow> bool \<times> real) \<Rightarrow>
   (intco \<Rightarrow> intco \<Rightarrow> bool) \<Rightarrow> (mat \<Rightarrow> vec \<times> mat) \<Rightarrow> (intco list \<Rightarrow> vec list \<Rightarrow> mat option) \<Rightarrow>
   nat list \<Rightarrow> nat \<Rightarrow> ndarray \<Rightarrow> ndarray \<Rightarrow> (ndarray \<times> ndarray \<times> ndarray \<times> ndarray) st" where
  "notebook v3d_dist covR angle eq eigh Bm Z Natom mol_geometry psi4gradientMatrix =
     st_bind (connectivity_cell v3d_dist covR Z mol_geometry Natom) (\<lambda>(xyzGeom, C).
     st_bind (intcos_cell angle eq C xyzGeom Natom) (\<lambda>intcos.
     st_bind (gx_cell psi4gradientMatrix Natom) (\<lambda>gx.
     st_bind (gq_cell eigh Bm intcos xyzGeom gx) (\<lambda>(B, gq).
     st_bind (gx2_cell B gq) (\<lambda>gx2.
     st_return (xyzGeom, gx, gq, gx2))))))"

text \<open>A computation changes, among the arrays that exist when it starts, at most those
  at the addresses \<open>W\<close>.\<close>

definition changes_only :: "addr set \<Rightarrow> 'a st \<Rightarrow> bool" where
  "changes_only W m = (\<forall>s. \<forall>a<brk s. a \<notin> W \<longrightarrow> bufs (snd (m s)) a = bufs s a)"

text \<open>The invariant of the proofs: the protected addresses \<open>P\<close> are allocated, stay
  allocated and keep their buffers, and a result satisfies \<open>Q\<close>.\<close>

definition st_inv :: "(addr \<Rightarrow> bool) \<Rightarrow> 'a st \<Rightarrow> ('a \<Rightarrow> bool) \<Rightarrow> bool" where
  "st_inv P m Q =
     (\<forall>s. (\<forall>a. P a \<longrightarrow> a < brk s) \<longrightarrow>
          (\<forall>a. P a \<longrightarrow> a < brk (snd (m s)) \<and> bufs (snd (m s)) a = bufs s a) \<and>
          (\<forall>x. fst (m s) = Inr x \<longrightarrow> Q x))"

section \<open>Basic facts about arrays\<close>

lemma mk_mat_sel [simp]:
  "nrows (mk_mat m n f) = m" "ncols (mk_mat m n f) = n"
  by (simp_all add: mk_mat_def)

lemma entry_mk_mat [simp]: "i < m \<Longrightarrow> j < n \<Longrightarrow> entry (mk_mat m n f) i j = f i j"
  by (simp add: mk_mat_def entry_def)

lemma mat_ok_mk_mat [simp]: "mat_ok (mk_mat m n f)"
  by (simp add: mat_ok_def mk_mat_def list_all_iff)

lemma mk_mat_cong:
  "(\<And>i j. i < m \<Longrightarrow> j < n \<Longrightarrow> f i j = g i j) \<Longrightarrow> mk_mat m n f = mk_mat m n g"
  by (simp add: mk_mat_def)

lemma mat_ok_eq_mk_mat:
  assumes "mat_ok A"
  shows "A = mk_mat (nrows A) (ncols A) (entry A)"
proof -
  have "rows A = map (\<lambda>i. map (\<lambda>j. entry A i j) [0..<ncols A]) [0..<nrows A]"
  proof (rule nth_equalityI)
    show "length (rows A) = length (map (\<lambda>i. map (\<lambda>j. entry A i j) [0..<ncols A]) [0..<nrows A])"
      using assms by (simp add: mat_ok_def)
  next
    fix i assume "i < length (rows A)"
    then have i: "i < nrows A" and len: "length (rows A ! i) = ncols A"
      using assms by (simp_all add: mat_ok_def list_all_length)
    have "rows A ! i = map (\<lambda>j. entry A i j) [0..<ncols A]"
      by (rule nth_equalityI) (simp_all add: len entry_def)
    then show "rows A ! i = map (\<lambda>i. map (\<lambda>j. entry A i j) [0..<ncols A]) [0..<nrows A] ! i"
      using i by simp
  qed
  then show ?thesis
    by (simp add: mk_mat_def)
qed

lemma mat_mul_sel [simp]: "nrows (mat_mul A B) = nrows A" "ncols (mat_mul A B) = ncols B"
  by (simp_all add: mat_mul_def)

lemma mat_ok_mat_mul [simp]: "mat_ok (mat_mul A B)"
  by (simp add: mat_mul_def)

lemma entry_mat_mul:
  "i < nrows A \<Longrightarrow> j < ncols B \<Longrightarrow>
   entry (mat_mul A B) i j = (\<Sum>k<ncols A. entry A i k * entry B k j)"
  by (simp add: mat_mul_def)

lemma transpose_sel [simp]:
  "nrows (transpose_np A) = ncols A" "ncols (transpose_np A) = nrows A"
  by (simp_all add: transpose_np_def)

lemma mat_ok_transpose [simp]: "mat_ok (transpose_np A)"
  by (simp add: transpose_np_def)

lemma entry_transpose:
  "i < ncols A \<Longrightarrow> j < nrows A \<Longrightarrow> entry (transpose_np A) i j = entry A j i"
  by (simp add: transpose_np_def)

lemma identity_sel [simp]: "nrows (identity_mat n) = n" "ncols (identity_mat n) = n"
  by (simp_all add: identity_mat_def)

lemma mat_ok_identity [simp]: "mat_ok (identity_mat n)"
  by (simp add: identity_mat_def)

lemma diag_sel [simp]: "nrows (diag_mat v) = length v" "ncols (diag_mat v) = length v"
  by (simp_all add: diag_mat_def)

lemma mat_ok_diag [simp]: "mat_ok (diag_mat v)"
  by (simp add: diag_mat_def)

lemma entry_diag:
  "i < length v \<Longrightarrow> j < length v \<Longrightarrow> entry (diag_mat v) i j = (if i = j then v ! i else 0)"
  by (simp add: diag_mat_def)

lemma mat_eqI:
  assumes "mat_ok A" "mat_ok B" "nrows A = nrows B" "ncols A = ncols B"
    and "\<And>i j. i < nrows A \<Longrightarrow> j < ncols A \<Longrightarrow> entry A i j = entry B i j"
  shows "A = B"
proof -
  have "A = mk_mat (nrows A) (ncols A) (entry A)"
    by (rule mat_ok_eq_mk_mat [OF assms(1)])
  also have "\<dots> = mk_mat (nrows B) (ncols B) (entry B)"
    using assms(3-5) by (auto intro: mk_mat_cong)
  also have "\<dots> = B"
    by (rule mat_ok_eq_mk_mat [OF assms(2), symmetric])
  finally show ?thesis .
qed

lemma mat_mul_assoc:
  assumes "ncols A = nrows B" "ncols B = nrows C"
  shows "mat_mul (mat_mul A B) C = mat_mul A (mat_mul B C)"
proof -
  have "(\<Sum>k<ncols B. (\<Sum>l<ncols A. entry A i l * entry B l k) * entry C k j)
      = (\<Sum>l<ncols A. entry A i l * (\<Sum>k<ncols B. entry B l k * entry C k j))" for i j
  proof -
    have "(\<Sum>k<ncols B. (\<Sum>l<ncols A. entry A i l * entry B l k) * entry C k j)
        = (\<Sum>k<ncols B. \<Sum>l<ncols A. entry A i l * (entry B l k * entry C k j))"
      by (simp add: sum_distrib_right mult.assoc)
    also have "\<dots> = (\<Sum>l<ncols A. \<Sum>k<ncols B. entry A i l * (entry B l k * entry C k j))"
      by (rule sum.swap)
    also have "\<dots> = (\<Sum>l<ncols A. entry A i l * (\<Sum>k<ncols B. entry B l k * entry C k j))"
      by (simp add: sum_distrib_left)
    finally show ?thesis .
  qed
  then show ?thesis
    unfolding mat_mul_def [of "mat_mul A B" C] mat_mul_def [of A "mat_mul B C"]
    using assms by (auto intro!: mk_mat_cong simp: entry_mat_mul)
qed

lemma transpose_transpose: "mat_ok A \<Longrightarrow> transpose_np (transpose_np A) = A"
  by (rule mat_eqI) (simp_all add: entry_transpose)

lemma transpose_mat_mul:
  assumes "ncols A = nrows B"
  shows "transpose_np (mat_mul A B) = mat_mul (transpose_np B) (transpose_np A)"
  by (rule mat_eqI) (simp_all add: entry_transpose entry_mat_mul assms mult.commute)

lemma transpose_identity [simp]: "transpose_np (identity_mat n) = identity_mat n"
  by (rule mat_eqI) (auto simp: entry_transpose identity_mat_def)

lemma transpose_diag [simp]: "transpose_np (diag_mat v) = diag_mat v"
  by (rule mat_eqI) (auto simp: entry_transpose entry_diag)

lemma mat_mul_identity_right:
  assumes "mat_ok A" "n = ncols A"
  shows "mat_mul A (identity_mat n) = A"
proof (rule mat_eqI)
  fix i j assume "i < nrows (mat_mul A (identity_mat n))" "j < ncols (mat_mul A (identity_mat n))"
  then have i: "i < nrows A" and j: "j < ncols A"
    using assms by simp_all
  have "entry (mat_mul A (identity_mat n)) i j
      = (\<Sum>k<ncols A. entry A i k * (if k = j then 1 else 0))"
    using i j assms by (simp add: entry_mat_mul identity_mat_def)
  also have "\<dots> = (\<Sum>k<ncols A. if k = j then entry A i k else 0)"
    by (rule sum.cong) simp_all
  also have "\<dots> = entry A i j"
    using j by (simp add: sum.delta)
  finally show "entry (mat_mul A (identity_mat n)) i j = entry A i j" .
qed (use assms in simp_all)

lemma mat_mul_identity_left:
  assumes "mat_ok A" "n = nrows A"
  shows "mat_mul (identity_mat n) A = A"
proof (rule mat_eqI)
  fix i j assume "i < nrows (mat_mul (identity_mat n) A)" "j < ncols (mat_mul (identity_mat n) A)"
  then have i: "i < nrows A" and j: "j < ncols A"
    using assms by simp_all
  have "entry (mat_mul (identity_mat n) A) i j
      = (\<Sum>k<nrows A. (if i = k then 1 else 0) * entry A k j)"
    using i j assms by (simp add: entry_mat_mul identity_mat_def)
  also have "\<dots> = (\<Sum>k<nrows A. if k = i then entry A k j else 0)"
    by (rule sum.cong) auto
  also have "\<dots> = entry A i j"
    using i by (simp add: sum.delta)
  finally show "entry (mat_mul (identity_mat n) A) i j = entry A i j" .
qed (use assms in simp_all)

lemma diag_mul_diag:
  assumes "length u = length v"
  shows "mat_mul (diag_mat u) (diag_mat v) = diag_mat (map2 (*) u v)"
proof (rule mat_eqI)
  fix i j
  assume "i < nrows (mat_mul (diag_mat u) (diag_mat v))"
    "j < ncols (mat_mul (diag_mat u) (diag_mat v))"
  then have i: "i < length u" and j: "j < length v"
    by simp_all
  have "entry (mat_mul (diag_mat u) (diag_mat v)) i j
      = (\<Sum>k<length u. (if i = k then u ! i else 0) * (if k = j then v ! k else 0))"
    using i j assms by (simp add: entry_mat_mul entry_diag)
  also have "\<dots> = (\<Sum>k<length u. if k = i then (if i = j then u ! i * v ! i else 0) else 0)"
    by (rule sum.cong) auto
  also have "\<dots> = (if i = j then u ! i * v ! i else 0)"
    using i by (simp add: sum.delta)
  finally show "entry (mat_mul (diag_mat u) (diag_mat v)) i j = entry (diag_mat (map2 (*) u v)) i j"
    using i j assms by (simp add: entry_diag)
qed (use assms in simp_all)

lemma mat_vec_length [simp]: "length (mat_vec A x) = nrows A"
  by (simp add: mat_vec_def)

lemma mat_vec_nth:
  "i < nrows A \<Longrightarrow> mat_vec A x ! i = (\<Sum>k<ncols A. entry A i k * x ! k)"
  by (simp add: mat_vec_def)

lemma mat_vec_mat_mul:
  assumes "ncols A = nrows B"
  shows "mat_vec (mat_mul A B) x = mat_vec A (mat_vec B x)"
proof (rule nth_equalityI)
  fix i assume "i < length (mat_vec (mat_mul A B) x)"
  then have i: "i < nrows A" by simp
  have "mat_vec (mat_mul A B) x ! i
      = (\<Sum>k<ncols B. (\<Sum>l<ncols A. entry A i l * entry B l k) * x ! k)"
    using i by (simp add: mat_vec_nth entry_mat_mul)
  also have "\<dots> = (\<Sum>k<ncols B. \<Sum>l<ncols A. entry A i l * (entry B l k * x ! k))"
    by (simp add: sum_distrib_right mult.assoc)
  also have "\<dots> = (\<Sum>l<ncols A. \<Sum>k<ncols B. entry A i l * (entry B l k * x ! k))"
    by (rule sum.swap)
  also have "\<dots> = (\<Sum>l<ncols A. entry A i l * (\<Sum>k<ncols B. entry B l k * x ! k))"
    by (simp add: sum_distrib_left)
  also have "\<dots> = mat_vec A (mat_vec B x) ! i"
    using i assms by (simp add: mat_vec_nth)
  finally show "mat_vec (mat_mul A B) x ! i = mat_vec A (mat_vec B x) ! i" .
qed simp

lemma mat_vec_identity:
  assumes "length x = n"
  shows "mat_vec (identity_mat n) x = x"
proof (rule nth_equalityI)
  fix i assume "i < length (mat_vec (identity_mat n) x)"
  then have i: "i < n" by simp
  have "mat_vec (identity_mat n) x ! i = (\<Sum>k<n. (if i = k then 1 else 0) * x ! k)"
    using i by (simp add: mat_vec_nth identity_mat_def)
  also have "\<dots> = (\<Sum>k<n. if k = i then x ! k else 0)"
    by (rule sum.cong) auto
  also have "\<dots> = x ! i"
    using i by (simp add: sum.delta)
  finally show "mat_vec (identity_mat n) x ! i = x ! i" .
qed (use assms in simp)

subsection \<open>The loops of \<^verbatim>\<open>symmMatInv\<close>\<close>

lemma set_entry_mk_mat:
  assumes "i < m" "j < n"
  shows "set_entry (mk_mat m n f) i j v
       = Inr (mk_mat m n (\<lambda>a b. if a = i \<and> b = j then v else f a b))"
proof -
  have "(map (\<lambda>a. map (f a) [0..<n]) [0..<m])[i := (map (f i) [0..<n])[j := v]]
      = map (\<lambda>a. map (\<lambda>b. if a = i \<and> b = j then v else f a b) [0..<n]) [0..<m]"
    (is "?L = ?R")
  proof (rule nth_equalityI)
    fix a assume "a < length ?L"
    then have a: "a < m" by simp
    show "?L ! a = ?R ! a"
    proof (cases "a = i")
      case True
      have "(map (f i) [0..<n])[j := v] = map (\<lambda>b. if b = j then v else f i b) [0..<n]"
        by (rule nth_equalityI) (auto simp: nth_list_update)
      then show ?thesis using a True by simp
    next
      case False
      then show ?thesis using a by simp
    qed
  qed simp
  then show ?thesis
    using assms by (simp add: set_entry_def mk_mat_def)
qed

lemma det_loop_total:
  "\<forall>i\<in>set ixs. i < length evals \<Longrightarrow> \<exists>d. det_loop evals ixs det = Inr d"
  by (induction ixs arbitrary: det) (auto simp: bind_r_def get_1d_def)

lemma eval_threshold_pos: "0 < eval_threshold"
  by (simp add: eval_threshold_def)

lemma diagInv_loop_mk_mat:
  assumes "\<forall>i\<in>set ixs. i < length evals \<and> i < d"
  shows "diagInv_loop evals ixs (mk_mat d d f)
       = Inr (mk_mat d d (\<lambda>a b. if a = b \<and> a \<in> set ixs \<and> \<bar>evals ! a\<bar> > eval_threshold
                                 then 1 / evals ! a else f a b))"
  using assms
proof (induction ixs arbitrary: f)
  case Nil
  then show ?case by simp
next
  case (Cons i rest)
  then have i: "i < length evals" "i < d" and rest: "\<forall>i\<in>set rest. i < length evals \<and> i < d"
    by simp_all
  let ?g = "\<lambda>h a b. if a = b \<and> a \<in> set rest \<and> \<bar>evals ! a\<bar> > eval_threshold
                     then 1 / evals ! a else h a b"
  show ?case
  proof (cases "\<bar>evals ! i\<bar> > eval_threshold")
    case True
    then have nz: "evals ! i \<noteq> 0"
      using eval_threshold_pos by auto
    let ?f' = "\<lambda>a b. if a = i \<and> b = i then 1 / evals ! i else f a b"
    have "diagInv_loop evals (i # rest) (mk_mat d d f) = diagInv_loop evals rest (mk_mat d d ?f')"
      using i True nz by (simp add: bind_r_def get_1d_def np_div_def set_entry_mk_mat)
    also have "\<dots> = Inr (mk_mat d d (?g ?f'))"
      by (rule Cons.IH [OF rest])
    also have "mk_mat d d (?g ?f') = mk_mat d d (\<lambda>a b. if a = b \<and> a \<in> set (i # rest) \<and> \<bar>evals ! a\<bar> > eval_threshold
                                 then 1 / evals ! a else f a b)"
      using True by (intro mk_mat_cong) auto
    finally show ?thesis .
  next
    case False
    have "diagInv_loop evals (i # rest) (mk_mat d d f) = diagInv_loop evals rest (mk_mat d d f)"
      using i False by (simp add: bind_r_def get_1d_def)
    also have "\<dots> = Inr (mk_mat d d (?g f))"
      by (rule Cons.IH [OF rest])
    also have "mk_mat d d (?g f) = mk_mat d d (\<lambda>a b. if a = b \<and> a \<in> set (i # rest) \<and> \<bar>evals ! a\<bar> > eval_threshold
                                 then 1 / evals ! a else f a b)"
      using False by (intro mk_mat_cong) auto
    finally show ?thesis .
  qed
qed

lemma diagInv_loop_range:
  assumes "length evals = d"
  shows "diagInv_loop evals [0..<d] (np_zeros d d) = Inr (diag_mat (map inv_eval evals))"
proof -
  have "diagInv_loop evals [0..<d] (np_zeros d d)
      = Inr (mk_mat d d (\<lambda>a b. if a = b \<and> a \<in> set [0..<d] \<and> \<bar>evals ! a\<bar> > eval_threshold
                                 then 1 / evals ! a else 0))"
    unfolding np_zeros_def using assms by (intro diagInv_loop_mk_mat) simp
  also have "mk_mat d d (\<lambda>a b. if a = b \<and> a \<in> set [0..<d] \<and> \<bar>evals ! a\<bar> > eval_threshold
                                 then 1 / evals ! a else 0) = diag_mat (map inv_eval evals)"
    unfolding diag_mat_def using assms by (auto intro!: mk_mat_cong simp: inv_eval_def)
  finally show ?thesis .
qed

lemma eigh_contract_shape: "eigh_contract eigh A \<Longrightarrow> eigh_shape eigh A"
  unfolding eigh_contract_def eigh_shape_def by (cases "eigh A") simp

lemma symmMatInv_eq:
  assumes "eigh_shape eigh A"
  shows "symmMatInv eigh A
       = Inr (mat_mul (snd (eigh A))
               (mat_mul (diag_mat (map inv_eval (fst (eigh A)))) (transpose_np (snd (eigh A)))))"
proof -
  obtain w V where e: "eigh A = (w, V)"
    by (cases "eigh A")
  from assms e have sh: "length w = nrows A" "mat_ok V" "nrows V = nrows A" "ncols V = nrows A"
    by (simp_all add: eigh_shape_def)
  obtain dt where dt: "det_loop w [0..<nrows A] 1 = Inr dt"
    using det_loop_total [of "[0..<nrows A]" w 1] sh(1) by auto
  have di: "diagInv_loop w [0..<nrows A] (np_zeros (nrows A) (nrows A))
              = Inr (diag_mat (map inv_eval w))"
    by (rule diagInv_loop_range [OF sh(1)])
  have tt: "transpose_np (transpose_np V) = V"
    by (rule transpose_transpose [OF sh(2)])
  have "symmMatInv eigh A
      = bind_r (np_dot (diag_mat (map inv_eval w)) (transpose_np V))
          (\<lambda>tmpMat. np_dot (transpose_np (transpose_np V)) tmpMat)"
    unfolding symmMatInv_def Let_def e prod.case dt di bind_r_def sum.case ..
  also have "\<dots> = Inr (mat_mul V (mat_mul (diag_mat (map inv_eval w)) (transpose_np V)))"
    unfolding tt by (simp add: np_dot_def bind_r_def sh)
  finally show ?thesis
    by (simp add: e)
qed

subsection \<open>Products of eigen-decompositions\<close>

lemma sandwich_mul:
  assumes V: "mat_ok V" "nrows V = d" "ncols V = d"
    and orth: "mat_mul (transpose_np V) V = identity_mat d"
    and len: "length u = d" "length v = d"
  shows "mat_mul (mat_mul V (mat_mul (diag_mat u) (transpose_np V)))
                 (mat_mul V (mat_mul (diag_mat v) (transpose_np V)))
       = mat_mul V (mat_mul (diag_mat (map2 (*) u v)) (transpose_np V))"
proof -
  let ?U = "diag_mat u" and ?W = "diag_mat v" and ?T = "transpose_np V"
  have "mat_mul (mat_mul V (mat_mul ?U ?T)) (mat_mul V (mat_mul ?W ?T))
      = mat_mul V (mat_mul (mat_mul ?U ?T) (mat_mul V (mat_mul ?W ?T)))"
    using V len by (simp add: mat_mul_assoc)
  also have "mat_mul (mat_mul ?U ?T) (mat_mul V (mat_mul ?W ?T))
      = mat_mul ?U (mat_mul ?T (mat_mul V (mat_mul ?W ?T)))"
    using V len by (simp add: mat_mul_assoc)
  also have "mat_mul ?T (mat_mul V (mat_mul ?W ?T)) = mat_mul (mat_mul ?T V) (mat_mul ?W ?T)"
    using V len by (simp add: mat_mul_assoc)
  also have "\<dots> = mat_mul ?W ?T"
    unfolding orth using len by (simp add: mat_mul_identity_left)
  also have "mat_mul ?U (mat_mul ?W ?T) = mat_mul (mat_mul ?U ?W) ?T"
    using V len by (simp add: mat_mul_assoc)
  also have "mat_mul ?U ?W = diag_mat (map2 (*) u v)"
    using len by (simp add: diag_mul_diag)
  finally show ?thesis .
qed

lemma diag_mat_ones:
  assumes "\<forall>i<length u. u ! i = 1"
  shows "diag_mat u = identity_mat (length u)"
  unfolding diag_mat_def identity_mat_def using assms by (auto intro!: mk_mat_cong)

lemma sandwich_transpose:
  assumes V: "mat_ok V" "nrows V = d" "ncols V = d" and len: "length u = d"
  shows "transpose_np (mat_mul V (mat_mul (diag_mat u) (transpose_np V)))
       = mat_mul V (mat_mul (diag_mat u) (transpose_np V))"
proof -
  have "transpose_np (mat_mul V (mat_mul (diag_mat u) (transpose_np V)))
      = mat_mul (transpose_np (mat_mul (diag_mat u) (transpose_np V))) (transpose_np V)"
    using V len by (simp add: transpose_mat_mul)
  also have "transpose_np (mat_mul (diag_mat u) (transpose_np V))
      = mat_mul (transpose_np (transpose_np V)) (transpose_np (diag_mat u))"
    using V len by (simp add: transpose_mat_mul)
  also have "\<dots> = mat_mul V (diag_mat u)"
    using V by (simp add: transpose_transpose)
  also have "mat_mul (mat_mul V (diag_mat u)) (transpose_np V)
      = mat_mul V (mat_mul (diag_mat u) (transpose_np V))"
    using V len by (simp add: mat_mul_assoc)
  finally show ?thesis .
qed

lemma inv_eval_mult:
  "\<bar>ev\<bar> > eval_threshold \<Longrightarrow> inv_eval ev * ev = 1"
  using eval_threshold_pos by (auto simp: inv_eval_def)

lemma gq_of_eq:
  assumes "length gx = ncols B" "eigh_shape eigh (mat_mul B (transpose_np B))"
  shows "gq_of eigh B gx
       = Inr (mat_vec (mat_mul (snd (eigh (mat_mul B (transpose_np B))))
                 (mat_mul (diag_mat (map inv_eval (fst (eigh (mat_mul B (transpose_np B))))))
                          (transpose_np (snd (eigh (mat_mul B (transpose_np B)))))))
               (mat_vec B gx))"
proof -
  let ?G = "mat_mul B (transpose_np B)"
  obtain w V where e: "eigh ?G = (w, V)"
    by (cases "eigh ?G")
  from assms(2) e have sh: "length w = nrows B" "nrows V = nrows B" "ncols V = nrows B"
    by (simp_all add: eigh_shape_def)
  have "gq_of eigh B gx
      = bind_r (symmMatInv eigh ?G) (\<lambda>Ginv. np_dot_mv Ginv (mat_vec B gx))"
    using assms(1)
    by (simp add: gq_of_def np_dot_mv_def np_dot_def bind_r_def transpose_1d_def split: sum.splits)
  also have "\<dots> = np_dot_mv (mat_mul V (mat_mul (diag_mat (map inv_eval w)) (transpose_np V)))
                        (mat_vec B gx)"
    unfolding symmMatInv_eq [OF assms(2)] e by (simp add: bind_r_def)
  also have "\<dots> = Inr (mat_vec (mat_mul V (mat_mul (diag_mat (map inv_eval w)) (transpose_np V)))
                        (mat_vec B gx))"
    using sh by (simp add: np_dot_mv_def)
  finally show ?thesis
    by (simp add: e)
qed



lemma np_dot_no_zero_division: "np_dot A B \<noteq> Inl ZeroDivision"
  by (simp add: np_dot_def)


section \<open>The generalised inverse and the gradient transformation\<close>

lemma sandwich_ones:
  assumes V: "mat_ok V" "nrows V = d" "ncols V = d"
    and orth: "mat_mul V (transpose_np V) = identity_mat d"
    and len: "length u = d" and ones: "\<forall>i<d. u ! i = 1"
  shows "mat_mul V (mat_mul (diag_mat u) (transpose_np V)) = identity_mat d"
proof -
  have "diag_mat u = identity_mat d"
    using diag_mat_ones [of u] len ones by simp
  then show ?thesis
    using V orth by (simp add: mat_mul_identity_left)
qed

lemma inv_eval_mult': "\<bar>ev\<bar> > eval_threshold \<Longrightarrow> ev * inv_eval ev = 1"
  using inv_eval_mult [of ev] by (simp add: mult.commute)

text \<open>
  Claim C2. Given the eigen-decomposition \<open>A = P\<^sup>T diag(w) P\<close> with \<open>P\<close> orthonormal
  that \<^verbatim>\<open>eigh\<close> returns (its contract), \<^verbatim>\<open>symmMatInv\<close> returns
  \<open>P\<^sup>T diag(w\<^sup>-\<^sup>1) P\<close>, where an eigenvalue is replaced by its reciprocal exactly when
  its magnitude exceeds \<open>1e-10\<close> and by \<open>0\<close> otherwise. The result is symmetric, and it is
  the inverse of \<open>A\<close> on both sides when every eigenvalue exceeds the threshold in magnitude.
\<close>

theorem symmMatInv_generalized_inverse:
  assumes "eigh_contract eigh A"
  shows "let w = fst (eigh A); P = transpose_np (snd (eigh A)) in
         A = mat_mul (transpose_np P) (mat_mul (diag_mat w) P) \<and>
         (\<exists>Ainv. symmMatInv eigh A = Inr Ainv \<and>
            Ainv = mat_mul (transpose_np P) (mat_mul (diag_mat (map inv_eval w)) P) \<and>
            transpose_np Ainv = Ainv \<and>
            ((\<forall>i<nrows A. \<bar>w ! i\<bar> > eval_threshold) \<longrightarrow>
               mat_mul Ainv A = identity_mat (nrows A) \<and>
               mat_mul A Ainv = identity_mat (nrows A)))"
proof -
  obtain w V where e: "eigh A = (w, V)"
    by (cases "eigh A")
  define d where "d = nrows A"
  from assms e have V: "mat_ok V" "nrows V = d" "ncols V = d" and len: "length w = d"
    and o1: "mat_mul (transpose_np V) V = identity_mat d"
    and o2: "mat_mul V (transpose_np V) = identity_mat d"
    and dec: "mat_mul V (mat_mul (diag_mat w) (transpose_np V)) = A"
    unfolding eigh_contract_def d_def by simp_all
  let ?D = "diag_mat (map inv_eval w)"
  let ?Ainv = "mat_mul V (mat_mul ?D (transpose_np V))"
  have tt: "transpose_np (transpose_np V) = V"
    by (rule transpose_transpose [OF V(1)])
  have run: "symmMatInv eigh A = Inr ?Ainv"
    using symmMatInv_eq [OF eigh_contract_shape [OF assms]] by (simp add: e)
  have sym: "transpose_np ?Ainv = ?Ainv"
    using V len by (intro sandwich_transpose [where d = d]) simp_all
  have inv: "mat_mul ?Ainv A = identity_mat d \<and> mat_mul A ?Ainv = identity_mat d"
    if big: "\<forall>i<d. \<bar>w ! i\<bar> > eval_threshold"
  proof
    have "mat_mul ?Ainv (mat_mul V (mat_mul (diag_mat w) (transpose_np V)))
        = mat_mul V (mat_mul (diag_mat (map2 (*) (map inv_eval w) w)) (transpose_np V))"
      using V o1 len by (intro sandwich_mul [where d = d]) simp_all
    also have "\<dots> = identity_mat d"
      using V o2 len big by (intro sandwich_ones) (simp_all add: inv_eval_mult)
    finally show "mat_mul ?Ainv A = identity_mat d"
      unfolding dec .
    have "mat_mul (mat_mul V (mat_mul (diag_mat w) (transpose_np V))) ?Ainv
        = mat_mul V (mat_mul (diag_mat (map2 (*) w (map inv_eval w))) (transpose_np V))"
      using V o1 len by (intro sandwich_mul [where d = d]) simp_all
    also have "\<dots> = identity_mat d"
      using V o2 len big by (intro sandwich_ones) (simp_all add: inv_eval_mult')
    finally show "mat_mul A ?Ainv = identity_mat d"
      unfolding dec .
  qed
  show ?thesis
    unfolding Let_def e fst_conv snd_conv tt
    using run sym inv dec by (simp add: d_def)
qed


lemmas array_eval =
  mat_mul_def mat_vec_def transpose_np_def identity_mat_def diag_mat_def mk_mat_def
  entry_def mat_ok_def np_zeros_def upt_conv_Cons lessThan_Suc numeral_2_eq_2 numeral_3_eq_3

theorem symmMatInv_generalized_inverse_witness:
  "eigh_contract (\<lambda>A. ([1, 2], \<lparr>nrows = 2, ncols = 2, rows = [[3/5, -4/5], [4/5, 3/5]]\<rparr>))
     \<lparr>nrows = 2, ncols = 2, rows = [[41/25, -12/25], [-12/25, 34/25]]\<rparr> \<and>
   symmMatInv (\<lambda>A. ([1, 2], \<lparr>nrows = 2, ncols = 2, rows = [[3/5, -4/5], [4/5, 3/5]]\<rparr>))
     \<lparr>nrows = 2, ncols = 2, rows = [[41/25, -12/25], [-12/25, 34/25]]\<rparr>
     = Inr \<lparr>nrows = 2, ncols = 2, rows = [[17/25, 6/25], [6/25, 41/50]]\<rparr> \<and>
   mat_mul \<lparr>nrows = 2, ncols = 2, rows = [[17/25, 6/25], [6/25, 41/50]]\<rparr>
           \<lparr>nrows = 2, ncols = 2, rows = [[41/25, -12/25], [-12/25, 34/25]]\<rparr> = identity_mat 2"
proof -
  let ?E = "\<lambda>A::mat. ([1, 2::real], \<lparr>nrows = 2, ncols = 2, rows = [[3/5, -4/5], [4/5, 3/5]]\<rparr>)"
  let ?A = "\<lparr>nrows = 2, ncols = 2, rows = [[41/25, -12/25], [-12/25, 34/25::real]]\<rparr>"
  have c: "eigh_contract ?E ?A"
    by (simp add: eigh_contract_def array_eval)
  have big: "\<forall>i<nrows ?A. \<bar>fst (?E ?A) ! i\<bar> > eval_threshold"
    by (simp add: eval_threshold_def less_Suc_eq numeral_2_eq_2)
  have v: "mat_mul (transpose_np (transpose_np (snd (?E ?A))))
             (mat_mul (diag_mat (map inv_eval (fst (?E ?A)))) (transpose_np (snd (?E ?A))))
         = \<lparr>nrows = 2, ncols = 2, rows = [[17/25, 6/25], [6/25, 41/50]]\<rparr>"
    by (simp add: array_eval inv_eval_def eval_threshold_def)
  from symmMatInv_generalized_inverse [OF c]
  have "symmMatInv ?E ?A = Inr \<lparr>nrows = 2, ncols = 2, rows = [[17/25, 6/25], [6/25, 41/50]]\<rparr> \<and>
        ((\<forall>i<nrows ?A. \<bar>fst (?E ?A) ! i\<bar> > eval_threshold) \<longrightarrow>
          mat_mul \<lparr>nrows = 2, ncols = 2, rows = [[17/25, 6/25], [6/25, 41/50]]\<rparr> ?A
            = identity_mat (nrows ?A))"
    unfolding Let_def v by blast
  with big c show ?thesis
    by simp
qed



text \<open>
  Claim C1. For a B-matrix \<open>B\<close> and a Cartesian gradient \<open>gx\<close> of matching length the
  notebook computes \<open>gq = Ginv (B u) gx\<close> with \<open>G = B u B\<^sup>T\<close>, \<open>Ginv\<close> the result of
  \<^verbatim>\<open>symmMatInv\<close> on \<open>G\<close>, and the weighting matrix \<open>u\<close> the unit matrix.
\<close>

theorem gq_of_formula:
  assumes "mat_ok B" "length gx = ncols B" "eigh_shape eigh (mat_mul B (transpose_np B))"
  shows "let u = identity_mat (ncols B); G = mat_mul (mat_mul B u) (transpose_np B) in
         np_dot B (transpose_np B) = Inr G \<and>
         (\<exists>Ginv. symmMatInv eigh G = Inr Ginv \<and>
            gq_of eigh B gx = Inr (mat_vec (mat_mul Ginv (mat_mul B u)) gx))"
proof -
  let ?G = "mat_mul B (transpose_np B)"
  let ?Ginv = "mat_mul (snd (eigh ?G))
                 (mat_mul (diag_mat (map inv_eval (fst (eigh ?G)))) (transpose_np (snd (eigh ?G))))"
  have Bu: "mat_mul B (identity_mat (ncols B)) = B"
    by (rule mat_mul_identity_right [OF assms(1) refl])
  have sh: "nrows (snd (eigh ?G)) = nrows B"
    using assms(3) by (cases "eigh ?G") (simp add: eigh_shape_def)
  have "mat_vec ?Ginv (mat_vec B gx) = mat_vec (mat_mul ?Ginv B) gx"
    using sh by (simp add: mat_vec_mat_mul)
  then have "gq_of eigh B gx = Inr (mat_vec (mat_mul ?Ginv B) gx)"
    using gq_of_eq [OF assms(2,3)] by simp
  moreover have "symmMatInv eigh ?G = Inr ?Ginv"
    by (rule symmMatInv_eq [OF assms(3)])
  moreover have "np_dot B (transpose_np B) = Inr ?G"
    by (simp add: np_dot_def)
  ultimately show ?thesis
    unfolding Let_def Bu by blast
qed

theorem gq_of_formula_witness:
  "mat_ok \<lparr>nrows = 2, ncols = 1, rows = [[4], [-3]]\<rparr> \<and>
   eigh_shape (\<lambda>A. ([0, 25], \<lparr>nrows = 2, ncols = 2, rows = [[3/5, 4/5], [4/5, -3/5]]\<rparr>))
     (mat_mul \<lparr>nrows = 2, ncols = 1, rows = [[4], [-3]]\<rparr>
              (transpose_np \<lparr>nrows = 2, ncols = 1, rows = [[4], [-3]]\<rparr>)) \<and>
   gq_of (\<lambda>A. ([0, 25], \<lparr>nrows = 2, ncols = 2, rows = [[3/5, 4/5], [4/5, -3/5]]\<rparr>))
     \<lparr>nrows = 2, ncols = 1, rows = [[4], [-3]]\<rparr> [2] = Inr [8/25, -6/25]"
proof -
  let ?E = "\<lambda>A::mat. ([0, 25::real], \<lparr>nrows = 2, ncols = 2, rows = [[3/5, 4/5], [4/5, -3/5]]\<rparr>)"
  let ?B = "\<lparr>nrows = 2, ncols = 1, rows = [[4], [-3::real]]\<rparr>"
  have G: "mat_mul (mat_mul ?B (identity_mat (ncols ?B))) (transpose_np ?B)
         = \<lparr>nrows = 2, ncols = 2, rows = [[16, -12], [-12, 9]]\<rparr>"
    by (simp add: array_eval)
  have h1: "mat_ok ?B"
    by (simp add: mat_ok_def)
  have h2: "length [2::real] = ncols ?B"
    by simp
  have h3: "eigh_shape ?E (mat_mul ?B (transpose_np ?B))"
    by (simp add: eigh_shape_def mat_ok_def)
  have inv: "symmMatInv ?E \<lparr>nrows = 2, ncols = 2, rows = [[16, -12], [-12, 9]]\<rparr>
           = Inr \<lparr>nrows = 2, ncols = 2, rows = [[16/625, -12/625], [-12/625, 9/625]]\<rparr>"
    by (simp add: symmMatInv_def bind_r_def get_1d_def np_div_def set_entry_def np_dot_def
        eval_threshold_def array_eval)
  have "gq_of ?E ?B [2]
      = Inr (mat_vec (mat_mul \<lparr>nrows = 2, ncols = 2, rows = [[16/625, -12/625], [-12/625, 9/625]]\<rparr>
                         (mat_mul ?B (identity_mat (ncols ?B)))) [2])"
    using gq_of_formula [OF h1 h2 h3] unfolding Let_def G inv by simp
  also have "\<dots> = Inr [8/25, -6/25]"
    by (simp add: array_eval)
  finally show ?thesis
    using h1 h3 by simp
qed



section \<open>The catalog of internal coordinates\<close>

lemma set_combinations2: "set (combinations2 n) = {(i, j). i < j \<and> j < n}"
proof -
  have "(a, b) \<in> set (combinations2 n) \<longleftrightarrow> a < b \<and> b < n" for a b
  proof
    assume "(a, b) \<in> set (combinations2 n)"
    then show "a < b \<and> b < n"
      by (auto simp: combinations2_def)
  next
    assume *: "a < b \<and> b < n"
    then have "a \<in> {0..<n}" "(a, b) \<in> Pair a ` {Suc a..<n}"
      by auto
    then show "(a, b) \<in> set (combinations2 n)"
      unfolding combinations2_def by (simp add: image_iff)
  qed
  then show ?thesis
    by auto
qed

lemma set_permutations2: "set (permutations2 n) = {(i, j). i < n \<and> j < n \<and> i \<noteq> j}"
  by (auto simp: permutations2_def)

subsection \<open>One insertion\<close>

lemma add_intco_no_duplicates:
  assumes "no_duplicates eq intcos"
  shows "no_duplicates eq (add_intco eq intcos c)"
proof (cases "list_ex (\<lambda>e. eq e c) intcos")
  case True
  then show ?thesis using assms by (simp add: add_intco_def)
next
  case False
  then have fresh: "\<forall>p<length intcos. \<not> eq (intcos ! p) c"
    by (auto simp: list_ex_iff)
  have "\<not> eq ((intcos @ [c]) ! p) ((intcos @ [c]) ! q)"
    if "q < length (intcos @ [c])" "p < q" for p q
  proof (cases "q < length intcos")
    case True
    then show ?thesis
      using assms that by (simp add: no_duplicates_def nth_append)
  next
    case False
    then have "q = length intcos" using that by simp
    then show ?thesis
      using fresh that by (simp add: nth_append)
  qed
  then show ?thesis
    using False unfolding add_intco_def no_duplicates_def by simp
qed

lemma add_intco_list_all:
  "list_all Q intcos \<Longrightarrow> Q c \<Longrightarrow> list_all Q (add_intco eq intcos c)"
  by (simp add: add_intco_def)

lemma add_intco_subseq:
  assumes "subseq intcos cands"
  shows "subseq (add_intco eq intcos c) (add_intco (\<lambda>_ _. False) cands c)"
proof -
  have "subseq intcos (cands @ [c])"
    using assms by (rule subseq_rev_drop_many)
  moreover have "subseq (intcos @ [c]) (cands @ [c])"
    using assms by (simp add: list_emb_append_mono)
  moreover have "\<not> list_ex (\<lambda>e. False) cands"
    by (simp add: list_ex_iff)
  ultimately show ?thesis
    by (simp add: add_intco_def)
qed


subsection \<open>The loops\<close>

lemma stre_loop_inv:
  assumes "no_duplicates eq intcos" "list_all Q intcos"
    and "\<And>i j. (i, j) \<in> set ps \<Longrightarrow> C ! i ! j \<Longrightarrow> Q (STRE i j)"
  shows "no_duplicates eq (stre_loop C eq ps intcos) \<and> list_all Q (stre_loop C eq ps intcos)"
  using assms
proof (induction ps arbitrary: intcos)
  case Nil
  then show ?case by simp
next
  case (Cons p ps)
  obtain i j where p: "p = (i, j)" by (cases p)
  let ?next = "if C ! i ! j then add_intco eq intcos (STRE i j) else intcos"
  have "no_duplicates eq ?next"
    using Cons.prems(1) by (simp add: add_intco_no_duplicates)
  moreover have "list_all Q ?next"
    using Cons.prems(2) Cons.prems(3) [of i j] by (simp add: p add_intco_list_all)
  ultimately show ?case
    using Cons.IH [of ?next] Cons.prems(3) by (simp add: p)
qed

lemma stre_loop_subseq:
  "subseq intcos cands \<Longrightarrow>
   subseq (stre_loop C eq ps intcos) (stre_loop C (\<lambda>_ _. False) ps cands)"
proof (induction ps arbitrary: intcos cands)
  case Nil
  then show ?case by simp
next
  case (Cons p ps)
  obtain i j where p: "p = (i, j)" by (cases p)
  show ?case
    using Cons.IH Cons.prems by (simp add: p add_intco_subseq)
qed

lemma bend_k_loop_inv:
  assumes "no_duplicates eq intcos" "list_all Q intcos"
    and "\<And>k. k \<in> set ks \<Longrightarrow> C ! j ! k \<Longrightarrow> fst (angle (x ! i) (x ! j) (x ! k)) \<Longrightarrow> Q (BEND i j k)"
  shows "no_duplicates eq (bend_k_loop C angle eq x i j ks intcos) \<and>
         list_all Q (bend_k_loop C angle eq x i j ks intcos)"
  using assms
proof (induction ks arbitrary: intcos)
  case Nil
  then show ?case by simp
next
  case (Cons k ks)
  let ?next = "if C ! j ! k
        then (case angle (x ! i) (x ! j) (x ! k) of
                (check, val) \<Rightarrow> if \<not> check then intcos else add_intco eq intcos (BEND i j k))
        else intcos"
  obtain ch v where a: "angle (x ! i) (x ! j) (x ! k) = (ch, v)"
    by (cases "angle (x ! i) (x ! j) (x ! k)")
  have "no_duplicates eq ?next"
    using Cons.prems(1) by (simp add: a add_intco_no_duplicates)
  moreover have "list_all Q ?next"
    using Cons.prems(2) Cons.prems(3) [of k] by (simp add: a add_intco_list_all)
  ultimately show ?case
    using Cons.IH [of ?next] Cons.prems(3) by simp
qed

lemma bend_k_loop_subseq:
  "subseq intcos cands \<Longrightarrow>
   subseq (bend_k_loop C angle eq x i j ks intcos)
          (bend_k_loop C angle (\<lambda>_ _. False) x i j ks cands)"
proof (induction ks arbitrary: intcos cands)
  case Nil
  then show ?case by simp
next
  case (Cons k ks)
  obtain ch v where a: "angle (x ! i) (x ! j) (x ! k) = (ch, v)"
    by (cases "angle (x ! i) (x ! j) (x ! k)")
  show ?case
    using Cons.IH Cons.prems by (simp add: a add_intco_subseq)
qed

lemma bend_loop_inv:
  assumes "no_duplicates eq intcos" "list_all Q intcos"
    and "\<And>i j k. (i, j) \<in> set ps \<Longrightarrow> Suc i \<le> k \<Longrightarrow> k < n \<Longrightarrow> C ! i ! j \<Longrightarrow> C ! j ! k \<Longrightarrow>
           fst (angle (x ! i) (x ! j) (x ! k)) \<Longrightarrow> Q (BEND i j k)"
  shows "no_duplicates eq (bend_loop C angle eq x n ps intcos) \<and>
         list_all Q (bend_loop C angle eq x n ps intcos)"
  using assms
proof (induction ps arbitrary: intcos)
  case Nil
  then show ?case by simp
next
  case (Cons p ps)
  obtain i j where p: "p = (i, j)" by (cases p)
  let ?next = "if C ! i ! j then bend_k_loop C angle eq x i j [Suc i..<n] intcos else intcos"
  have "no_duplicates eq ?next \<and> list_all Q ?next"
  proof (cases "C ! i ! j")
    case True
    have "no_duplicates eq (bend_k_loop C angle eq x i j [Suc i..<n] intcos) \<and>
          list_all Q (bend_k_loop C angle eq x i j [Suc i..<n] intcos)"
      using Cons.prems(1,2) Cons.prems(3) [of i j] True
      by (intro bend_k_loop_inv) (simp_all add: p)
    then show ?thesis using True by simp
  next
    case False
    then show ?thesis using Cons.prems(1,2) by simp
  qed
  then show ?case
    using Cons.IH [of ?next] Cons.prems(3) by (simp add: p)
qed

lemma bend_loop_subseq:
  "subseq intcos cands \<Longrightarrow>
   subseq (bend_loop C angle eq x n ps intcos)
          (bend_loop C angle (\<lambda>_ _. False) x n ps cands)"
proof (induction ps arbitrary: intcos cands)
  case Nil
  then show ?case by simp
next
  case (Cons p ps)
  obtain i j where p: "p = (i, j)" by (cases p)
  show ?case
    using Cons.IH Cons.prems by (simp add: p bend_k_loop_subseq)
qed

lemma no_duplicates_Nil: "no_duplicates eq []"
  by (simp add: no_duplicates_def)

lemma build_intcos_inv:
  assumes "\<And>i j. i < j \<Longrightarrow> j < n \<Longrightarrow> C ! i ! j \<Longrightarrow> Q (STRE i j)"
    and "\<And>i j k. i < n \<Longrightarrow> j < n \<Longrightarrow> i \<noteq> j \<Longrightarrow> i < k \<Longrightarrow> k < n \<Longrightarrow> C ! i ! j \<Longrightarrow> C ! j ! k \<Longrightarrow>
           fst (angle (x ! i) (x ! j) (x ! k)) \<Longrightarrow> Q (BEND i j k)"
  shows "no_duplicates eq (build_intcos C angle eq x n) \<and>
         list_all Q (build_intcos C angle eq x n)"
proof -
  have "no_duplicates eq (stre_loop C eq (combinations2 n) []) \<and>
        list_all Q (stre_loop C eq (combinations2 n) [])"
    using assms(1) by (intro stre_loop_inv) (simp_all add: no_duplicates_Nil set_combinations2)
  then show ?thesis
    unfolding build_intcos_def using assms(2)
    by (intro bend_loop_inv) (simp_all add: set_permutations2)
qed

lemma build_intcos_subseq:
  "subseq (build_intcos C angle eq x n) (build_intcos C angle (\<lambda>_ _. False) x n)"
  unfolding build_intcos_def by (intro bend_loop_subseq stre_loop_subseq) simp

subsection \<open>The catalog that the notebook builds\<close>

lemmas loop_eval =
  build_intcos_def combinations2_def permutations2_def add_intco_def upt_conv_Cons

text \<open>
  Claim C5. For a connectivity matrix without self-bonds the catalog has no duplicates
  under the equality rule (no entry equals an earlier one), every coordinate in it has
  distinct atoms below \<open>Natom\<close>, and its entries stand in the order in which the loops
  generate their candidates: the catalog is a subsequence of the list of all candidates,
  which is what the same loops build when no two coordinates are ever equal.
\<close>

theorem build_intcos_catalog:
  assumes "\<forall>j<Natom. \<not> C ! j ! j"
  shows "no_duplicates eq (build_intcos C angle eq xyzGeom Natom) \<and>
         list_all (atoms_ok Natom) (build_intcos C angle eq xyzGeom Natom) \<and>
         subseq (build_intcos C angle eq xyzGeom Natom)
                (build_intcos C angle (\<lambda>_ _. False) xyzGeom Natom)"
proof -
  have "atoms_ok Natom (STRE i j)" if "i < j" "j < Natom" for i j
    using that by (simp add: atoms_ok_def)
  moreover have "atoms_ok Natom (BEND i j k)"
    if "i < Natom" "j < Natom" "i \<noteq> j" "i < k" "k < Natom" "C ! j ! k" for i j k
  proof -
    have "j \<noteq> k"
      using assms that by auto
    then show ?thesis
      using that by (simp add: atoms_ok_def)
  qed
  ultimately have "no_duplicates eq (build_intcos C angle eq xyzGeom Natom) \<and>
         list_all (atoms_ok Natom) (build_intcos C angle eq xyzGeom Natom)"
    by (intro build_intcos_inv) simp_all
  then show ?thesis
    using build_intcos_subseq by simp
qed

theorem build_intcos_catalog_witness:
  "build_intcos
     [[False, True, True, True, True], [True, False, False, False, False],
      [True, False, False, False, False], [True, False, False, False, False],
      [True, False, False, False, False]]
     (\<lambda>a b c. (True, 0)) intco_eq [] 5
   = [STRE 0 1, STRE 0 2, STRE 0 3, STRE 0 4,
      BEND 1 0 2, BEND 1 0 3, BEND 1 0 4, BEND 2 0 3, BEND 2 0 4, BEND 3 0 4] \<and>
   no_duplicates intco_eq
     [STRE 0 1, STRE 0 2, STRE 0 3, STRE 0 4,
      BEND 1 0 2, BEND 1 0 3, BEND 1 0 4, BEND 2 0 3, BEND 2 0 4, BEND 3 0 4] \<and>
   list_all (atoms_ok 5)
     [STRE 0 1, STRE 0 2, STRE 0 3, STRE 0 4,
      BEND 1 0 2, BEND 1 0 3, BEND 1 0 4, BEND 2 0 3, BEND 2 0 4, BEND 3 0 4]"
proof -
  let ?C = "[[False, True, True, True, True], [True, False, False, False, False],
      [True, False, False, False, False], [True, False, False, False, False],
      [True, False, False, False, False]]"
  have diag: "\<forall>j<5. \<not> ?C ! j ! j"
    by (simp add: less_Suc_eq numeral_eq_Suc)
  have run: "build_intcos ?C (\<lambda>a b c. (True, 0)) intco_eq [] 5
     = [STRE 0 1, STRE 0 2, STRE 0 3, STRE 0 4,
        BEND 1 0 2, BEND 1 0 3, BEND 1 0 4, BEND 2 0 3, BEND 2 0 4, BEND 3 0 4]"
    by (simp add: loop_eval)
  from build_intcos_catalog [OF diag, where angle = "\<lambda>a b c. (True, 0)" and eq = intco_eq
      and xyzGeom = "[]"]
  show ?thesis
    unfolding run by simp
qed

text \<open>
  Claim C10. Whatever the connectivity and the geometry, every entry of the catalog is
  a stretch or a bend: the loops construct no dihedral, also where the connectivity
  has a bonded chain of four atoms.
\<close>

theorem build_intcos_no_dihedral:
  "list_all (\<lambda>c. is_STRE c \<or> is_BEND c) (build_intcos C angle eq xyzGeom Natom)"
proof -
  have "no_duplicates eq (build_intcos C angle eq xyzGeom Natom) \<and>
        list_all (\<lambda>c. is_STRE c \<or> is_BEND c) (build_intcos C angle eq xyzGeom Natom)"
    by (intro build_intcos_inv) simp_all
  then show ?thesis
    by simp
qed

theorem build_intcos_no_dihedral_witness:
  "build_intcos
     [[False, True, False, False], [True, False, True, False],
      [False, True, False, True], [False, False, True, False]]
     (\<lambda>a b c. (True, 0)) intco_eq [] 4
   = [STRE 0 1, STRE 1 2, STRE 2 3, BEND 0 1 2, BEND 1 2 3] \<and>
   list_all (\<lambda>c. is_STRE c \<or> is_BEND c)
     (build_intcos
       [[False, True, False, False], [True, False, True, False],
        [False, True, False, True], [False, False, True, False]]
       (\<lambda>a b c. (True, 0)) intco_eq [] 4)"
proof -
  have "build_intcos
     [[False, True, False, False], [True, False, True, False],
      [False, True, False, True], [False, False, True, False]]
     (\<lambda>a b c. (True, 0)) intco_eq [] 4
   = [STRE 0 1, STRE 1 2, STRE 2 3, BEND 0 1 2, BEND 1 2 3]"
    by (simp add: loop_eval)
  then show ?thesis
    using build_intcos_no_dihedral
      [where C = "[[False, True, False, False], [True, False, True, False],
            [False, True, False, True], [False, False, True, False]]"
          and angle = "\<lambda>a b c. (True, 0)" and eq = intco_eq and xyzGeom = "[]" and Natom = 4]
    by simp
qed

section \<open>Degenerate bends\<close>

lemma dot3_expand: "dot3 u v = u ! 0 * v ! 0 + u ! 1 * v ! 1 + u ! 2 * v ! 2"
  by (simp add: dot3_def lessThan_Suc numeral_3_eq_3 numeral_2_eq_2)

lemma sub3_nth [simp]:
  "sub3 u v ! 0 = u ! 0 - v ! 0" "sub3 u v ! 1 = u ! 1 - v ! 1" "sub3 u v ! 2 = u ! 2 - v ! 2"
  by (simp_all add: sub3_def upt_conv_Cons numeral_3_eq_3 numeral_2_eq_2)

lemma dot3_nonneg: "0 \<le> dot3 v v"
  by (simp add: dot3_expand)

lemma norm3_square: "norm3 v * norm3 v = dot3 v v"
  by (simp add: norm3_def dot3_nonneg)

lemma norm3_zero_iff: "norm3 v = 0 \<longleftrightarrow> dot3 v v = 0"
  by (simp add: norm3_def)

lemma dot3_scaled:
  "dot3 (map (\<lambda>c. c / n) (sub3 A B)) (map (\<lambda>c. c / m) (sub3 C D))
   = dot3 (sub3 A B) (sub3 C D) / (n * m)"
  by (simp add: dot3_expand sub3_def upt_conv_Cons numeral_3_eq_3 numeral_2_eq_2
      add_divide_distrib)

lemma lagrange3:
  assumes "cross3 u v = [0, 0, 0]"
  shows "dot3 u v * dot3 u v = dot3 u u * dot3 v v"
proof -
  from assms have c: "u ! 1 * v ! 2 = u ! 2 * v ! 1" "u ! 2 * v ! 0 = u ! 0 * v ! 2"
    "u ! 0 * v ! 1 = u ! 1 * v ! 0"
    by (simp_all add: cross3_def)
  have "dot3 u u * dot3 v v - dot3 u v * dot3 u v
      = (u ! 1 * v ! 2 - u ! 2 * v ! 1) * (u ! 1 * v ! 2 - u ! 2 * v ! 1)
      + (u ! 2 * v ! 0 - u ! 0 * v ! 2) * (u ! 2 * v ! 0 - u ! 0 * v ! 2)
      + (u ! 0 * v ! 1 - u ! 1 * v ! 0) * (u ! 0 * v ! 1 - u ! 1 * v ! 0)"
    unfolding dot3_expand by (simp add: algebra_simps)
  then show ?thesis
    using c by simp
qed

lemma angle_v3d_collinear:
  assumes "collinear3 A B C"
  shows "\<not> fst (angle_v3d A B C)"
proof (cases "norm3 (sub3 A B) = 0 \<or> norm3 (sub3 C B) = 0")
  case True
  then show ?thesis
    by (auto simp: angle_v3d_def eAB_v3d_def Let_def)
next
  case False
  let ?a = "sub3 A B" and ?c = "sub3 C B"
  let ?dp = "dot3 ?a ?c / (norm3 ?a * norm3 ?c)"
  from False have nz: "norm3 ?a \<noteq> 0" "norm3 ?c \<noteq> 0"
    by simp_all
  have "dot3 ?a ?c * dot3 ?a ?c = dot3 ?a ?a * dot3 ?c ?c"
    using assms by (intro lagrange3) (simp add: collinear3_def)
  also have "\<dots> = (norm3 ?a * norm3 ?c) * (norm3 ?a * norm3 ?c)"
    by (simp add: norm3_square [symmetric] mult_ac)
  finally have sq: "dot3 ?a ?c * dot3 ?a ?c = (norm3 ?a * norm3 ?c) * (norm3 ?a * norm3 ?c)" .
  have nn: "(norm3 ?a * norm3 ?c) * (norm3 ?a * norm3 ?c) \<noteq> 0"
    using nz by simp
  have "?dp * ?dp = (dot3 ?a ?c * dot3 ?a ?c) / ((norm3 ?a * norm3 ?c) * (norm3 ?a * norm3 ?c))"
    by (simp only: times_divide_times_eq)
  also have "\<dots> = ((norm3 ?a * norm3 ?c) * (norm3 ?a * norm3 ?c))
                  / ((norm3 ?a * norm3 ?c) * (norm3 ?a * norm3 ?c))"
    by (simp only: sq)
  also have "\<dots> = 1"
    by (rule divide_self [OF nn])
  finally have "?dp * ?dp = 1" .
  then have "?dp\<^sup>2 = 1"
    unfolding power2_eq_square .
  then have "?dp = 1 \<or> ?dp = - 1"
    using power2_eq_1_iff [of ?dp] by blast
  then show ?thesis
    using nz by (auto simp: angle_v3d_def eAB_v3d_def Let_def dot3_scaled)
qed

lemma build_intcos_bend_checked:
  "list_all (bend_checked angle x) (build_intcos C angle eq x n)"
proof -
  have "no_duplicates eq (build_intcos C angle eq x n) \<and>
        list_all (bend_checked angle x) (build_intcos C angle eq x n)"
    by (intro build_intcos_inv) simp_all
  then show ?thesis
    by simp
qed

text \<open>
  Claim C6. Three points that are degenerate (collinear, or with an arm of length
  zero) fail the check of the angle routine, and the loops skip a candidate that fails
  the check: the catalog built with that routine holds no bend over three collinear
  atoms. (The catalog is a value of a total function: no exception is raised.)
\<close>

theorem collinear_never_bend:
  assumes "collinear3 (xyzGeom ! i) (xyzGeom ! j) (xyzGeom ! k)"
  shows "\<not> fst (angle_v3d (xyzGeom ! i) (xyzGeom ! j) (xyzGeom ! k)) \<and>
         BEND i j k \<notin> set (build_intcos C angle_v3d eq xyzGeom Natom)"
proof
  show deg: "\<not> fst (angle_v3d (xyzGeom ! i) (xyzGeom ! j) (xyzGeom ! k))"
    by (rule angle_v3d_collinear [OF assms])
  show "BEND i j k \<notin> set (build_intcos C angle_v3d eq xyzGeom Natom)"
  proof
    assume "BEND i j k \<in> set (build_intcos C angle_v3d eq xyzGeom Natom)"
    then have "bend_checked angle_v3d xyzGeom (BEND i j k)"
      using build_intcos_bend_checked [of angle_v3d xyzGeom C eq Natom]
      unfolding list_all_iff by blast
    then show False
      using deg by simp
  qed
qed


lemmas v3d_eval =
  angle_v3d_def eAB_v3d_def norm3_def dot3_def sub3_def cross3_def collinear3_def Let_def
  lessThan_Suc numeral_3_eq_3 numeral_2_eq_2

theorem collinear_never_bend_witness:
  "collinear3 ([[- 2, 0, 0], [0, 0, 0], [2, 0, 0]] ! 0) ([[- 2, 0, 0], [0, 0, 0], [2, 0, 0]] ! 1)
     ([[- 2, 0, 0], [0, 0, 0], [2, 0, 0]] ! 2) \<and>
   BEND 0 1 2 \<notin> set (build_intcos [[False, True, False], [True, False, True], [False, True, False]]
     angle_v3d intco_eq [[- 2, 0, 0], [0, 0, 0], [2, 0, 0]] 3) \<and>
   build_intcos [[False, True, False], [True, False, True], [False, True, False]]
     angle_v3d intco_eq [[- 2, 0, 0], [0, 0, 0], [2, 0, 0]] 3 = [STRE 0 1, STRE 1 2] \<and>
   build_intcos [[False, True, False], [True, False, True], [False, True, False]]
     angle_v3d intco_eq [[2, 0, 0], [0, 0, 0], [0, 2, 0]] 3 = [STRE 0 1, STRE 1 2, BEND 0 1 2]"
proof -
  let ?x = "[[- 2, 0, 0], [0, 0, 0], [2, 0, 0::real]]"
  have col: "collinear3 (?x ! 0) (?x ! 1) (?x ! 2)"
    by (simp add: v3d_eval upt_conv_Cons)
  have a1: "angle_v3d [- 2, 0, 0] [0, 0, 0] [2, 0, 0] = (False, 0)"
    by (simp add: v3d_eval upt_conv_Cons)
  have a2: "angle_v3d [2, 0, 0] [0, 0, 0] [0, 2, 0] = (True, arccos 0)"
    by (simp add: v3d_eval upt_conv_Cons)
  have r1: "build_intcos [[False, True, False], [True, False, True], [False, True, False]]
     angle_v3d intco_eq ?x 3 = [STRE 0 1, STRE 1 2]"
    by (simp add: loop_eval a1)
  have r2: "build_intcos [[False, True, False], [True, False, True], [False, True, False]]
     angle_v3d intco_eq [[2, 0, 0], [0, 0, 0], [0, 2, 0]] 3 = [STRE 0 1, STRE 1 2, BEND 0 1 2]"
    by (simp add: loop_eval a2)
  from collinear_never_bend [OF col]
  have "BEND 0 1 2 \<notin> set (build_intcos [[False, True, False], [True, False, True], [False, True, False]]
     angle_v3d intco_eq ?x 3)"
    by blast
  then show ?thesis
    using col r1 r2 by blast
qed

section \<open>The connectivity matrix\<close>

lemma bmat_ok_zeros: "bmat_ok n (replicate n (replicate n False))"
  by (simp add: bmat_ok_def list_all_iff)

lemma bmat_ok_set_bool:
  assumes "bmat_ok n C"
  shows "bmat_ok n (set_bool C i j b)"
proof -
  have "length (C[i := (C ! i)[j := b]] ! a) = n" if "a < length C" for a
    using assms that by (cases "a = i") (simp_all add: bmat_ok_def list_all_length)
  then show ?thesis
    using assms by (simp add: bmat_ok_def set_bool_def list_all_length)
qed

lemma set_bool_nth:
  assumes "bmat_ok n C" "i < n" "j < n" "a < n" "c < n"
  shows "set_bool C i j b ! a ! c = (if a = i \<and> c = j then b else C ! a ! c)"
  using assms
  by (auto simp: bmat_ok_def set_bool_def list_all_length nth_list_update)

lemma connectivity_loop_spec:
  assumes "bmat_ok n C0"
    and "\<forall>(i, j)\<in>set ps. i < n \<and> j < n"
    and "\<forall>i<n. covR (Z ! i) \<noteq> None"
  shows "\<exists>C. connectivity_loop d covR Z x ps C0 = Inr C \<and> bmat_ok n C \<and>
           (\<forall>a<n. \<forall>c<n. C ! a ! c \<longleftrightarrow>
               C0 ! a ! c \<or> ((a, c) \<in> set ps \<and> bonded_test d covR Z x a c)
                          \<or> ((c, a) \<in> set ps \<and> bonded_test d covR Z x c a))"
  using assms(1,2)
proof (induction ps arbitrary: C0)
  case Nil
  then show ?case by simp
next
  case (Cons p ps)
  obtain i j where p: "p = (i, j)" by (cases p)
  from Cons.prems(2) have ij: "i < n" "j < n" and rest: "\<forall>(i, j)\<in>set ps. i < n \<and> j < n"
    by (simp_all add: p)
  obtain ri rj where r: "covR (Z ! i) = Some ri" "covR (Z ! j) = Some rj"
    using assms(3) ij by fastforce
  let ?t = "bonded_test d covR Z x i j"
  let ?C1 = "if ?t then set_bool (set_bool C0 i j True) j i True else C0"
  have step: "connectivity_loop d covR Z x (p # ps) C0 = connectivity_loop d covR Z x ps ?C1"
    by (simp add: p r covR_lookup_def bind_r_def bonded_test_def Let_def)
  have ok1: "bmat_ok n ?C1"
    using Cons.prems(1) by (simp add: bmat_ok_set_bool)
  have nth1: "?C1 ! a ! c \<longleftrightarrow> C0 ! a ! c \<or> (?t \<and> ((a = i \<and> c = j) \<or> (a = j \<and> c = i)))"
    if "a < n" "c < n" for a c
    using that ij Cons.prems(1)
    by (auto simp: set_bool_nth [where n = n] bmat_ok_set_bool)
  from Cons.IH [OF ok1 rest] obtain C where
    C: "connectivity_loop d covR Z x ps ?C1 = Inr C" "bmat_ok n C"
    and Ceq: "\<forall>a<n. \<forall>c<n. C ! a ! c \<longleftrightarrow>
               ?C1 ! a ! c \<or> ((a, c) \<in> set ps \<and> bonded_test d covR Z x a c)
                          \<or> ((c, a) \<in> set ps \<and> bonded_test d covR Z x c a)"
    by blast
  have "C ! a ! c \<longleftrightarrow>
          C0 ! a ! c \<or> ((a, c) \<in> set (p # ps) \<and> bonded_test d covR Z x a c)
                     \<or> ((c, a) \<in> set (p # ps) \<and> bonded_test d covR Z x c a)"
    if "a < n" "c < n" for a c
    using Ceq that nth1 [OF that] by (auto simp: p)
  then show ?case
    using C step by auto
qed


lemma bonded_test_sym:
  assumes "\<And>a b. d a b = d b a"
  shows "bonded_test d covR Z x i j = bonded_test d covR Z x j i"
  unfolding bonded_test_def by (simp add: assms [of "x ! i" "x ! j"] add.commute)

lemma dist_v3d_sym: "dist_v3d A B = dist_v3d B A"
  by (simp add: dist_v3d_def norm3_def dot3_def sub3_def lessThan_Suc numeral_3_eq_3
      upt_conv_Cons algebra_simps)

text \<open>
  Claim C3. When the table has a radius for every atomic number of the molecule, the
  notebook's loop returns an \<open>Natom \<times> Natom\<close> boolean matrix in which, for \<open>i < j\<close>, the
  entry \<open>(i, j)\<close> is true iff \<open>R(i,j) < 1.3 * Rcov(i,j)\<close>, with \<open>Rcov(i,j)\<close> the sum of the
  two tabulated radii divided by \<open>0.52917720859\<close>; the matrix is symmetric and its
  diagonal is false. For a symmetric distance function (the Euclidean distance is one)
  the equivalence holds for every pair of distinct atoms.
\<close>

theorem connectivity_spec:
  assumes "\<forall>i<Natom. covR (Z ! i) \<noteq> None"
  shows "\<exists>C. connectivity d covR Z xyzGeom Natom = Inr C \<and> bmat_ok Natom C \<and>
           (\<forall>i<Natom. \<forall>j<Natom.
              (i < j \<longrightarrow> (C ! i ! j \<longleftrightarrow> bonded_test d covR Z xyzGeom i j)) \<and>
              (C ! j ! i \<longleftrightarrow> C ! i ! j)) \<and>
           (\<forall>i<Natom. \<not> C ! i ! i) \<and>
           ((\<forall>a b. d a b = d b a) \<longrightarrow>
              (\<forall>i<Natom. \<forall>j<Natom. i \<noteq> j \<longrightarrow>
                 (C ! i ! j \<longleftrightarrow> bonded_test d covR Z xyzGeom i j)))"
proof -
  let ?t = "bonded_test d covR Z xyzGeom"
  have "\<exists>C. connectivity_loop d covR Z xyzGeom (combinations2 Natom)
               (replicate Natom (replicate Natom False)) = Inr C \<and> bmat_ok Natom C \<and>
           (\<forall>a<Natom. \<forall>c<Natom. C ! a ! c \<longleftrightarrow>
               replicate Natom (replicate Natom False) ! a ! c
               \<or> ((a, c) \<in> set (combinations2 Natom) \<and> ?t a c)
               \<or> ((c, a) \<in> set (combinations2 Natom) \<and> ?t c a))"
    using assms by (intro connectivity_loop_spec bmat_ok_zeros) (auto simp: set_combinations2)
  then obtain C where run: "connectivity d covR Z xyzGeom Natom = Inr C" and ok: "bmat_ok Natom C"
    and Ceq: "\<And>a c. a < Natom \<Longrightarrow> c < Natom \<Longrightarrow>
                C ! a ! c \<longleftrightarrow> (a < c \<and> ?t a c) \<or> (c < a \<and> ?t c a)"
    unfolding connectivity_def by (auto simp: set_combinations2)
  have 1: "(i < j \<longrightarrow> (C ! i ! j \<longleftrightarrow> ?t i j)) \<and> (C ! j ! i \<longleftrightarrow> C ! i ! j)"
    if "i < Natom" "j < Natom" for i j
    using Ceq [OF that] Ceq [OF that(2,1)] by auto
  have 2: "\<not> C ! i ! i" if "i < Natom" for i
    using Ceq [OF that that] by simp
  have 3: "C ! i ! j \<longleftrightarrow> ?t i j"
    if sym: "\<forall>a b. d a b = d b a" and "i < Natom" "j < Natom" "i \<noteq> j" for i j
  proof -
    have "?t j i = ?t i j"
      using sym by (intro bonded_test_sym) simp
    then show ?thesis
      using Ceq [OF that(2,3)] that(4) by auto
  qed
  show ?thesis
    using run ok 1 2 3 by blast
qed

lemmas connectivity_eval =
  connectivity_def combinations2_def upt_conv_Cons covR_lookup_def bind_r_def set_bool_def
  bond_factor_def bohr_per_angstrom_def dist_v3d_def norm3_def dot3_def sub3_def Let_def
  lessThan_Suc numeral_3_eq_3 numeral_2_eq_2

theorem connectivity_spec_witness:
  "connectivity dist_v3d [1 \<mapsto> 31 / 100] [1, 1, 1] [[0, 0, 0], [1, 0, 0], [2, 0, 0]] 3
     = Inr [[False, True, False], [True, False, True], [False, True, False]] \<and>
   bonded_test dist_v3d [1 \<mapsto> 31 / 100] [1, 1, 1] [[0, 0, 0], [1, 0, 0], [2, 0, 0]] 0 1 \<and>
   \<not> bonded_test dist_v3d [1 \<mapsto> 31 / 100] [1, 1, 1] [[0, 0, 0], [1, 0, 0], [2, 0, 0]] 0 2"
proof -
  let ?covR = "[1 \<mapsto> 31 / 100] :: nat \<Rightarrow> real option"
  let ?Z = "[1, 1, 1] :: nat list"
  let ?x = "[[0, 0, 0], [1, 0, 0], [2, 0, 0]] :: vec list"
  let ?C = "[[False, True, False], [True, False, True], [False, True, False]]"
  have h: "\<forall>i<3. ?covR (?Z ! i) \<noteq> None"
    by (simp add: less_Suc_eq numeral_3_eq_3 del: not_None_eq)
  have run: "connectivity dist_v3d ?covR ?Z ?x 3 = Inr ?C"
    by (simp add: connectivity_eval)
  from connectivity_spec [OF h, of dist_v3d ?x] obtain C where
    c1: "connectivity dist_v3d ?covR ?Z ?x 3 = Inr C" and
    c2: "\<forall>i<3. \<forall>j<3. (i < j \<longrightarrow> (C ! i ! j \<longleftrightarrow> bonded_test dist_v3d ?covR ?Z ?x i j)) \<and>
              (C ! j ! i \<longleftrightarrow> C ! i ! j)"
    by blast
  from c1 [symmetric] run have "(Inr C :: np_error + bmat) = Inr ?C"
    by (rule trans)
  then have C: "C = ?C"
    by (simp only: sum.inject)
  have p01: "C ! 0 ! 1 \<longleftrightarrow> bonded_test dist_v3d ?covR ?Z ?x 0 1"
    using c2 [rule_format, of 0 1] by simp
  have p02: "C ! 0 ! 2 \<longleftrightarrow> bonded_test dist_v3d ?covR ?Z ?x 0 2"
    using c2 [rule_format, of 0 2] by simp
  from p01 p02 have "bonded_test dist_v3d ?covR ?Z ?x 0 1"
    and "\<not> bonded_test dist_v3d ?covR ?Z ?x 0 2"
    unfolding C by simp_all
  then show ?thesis
    using run by simp
qed

section \<open>Two atoms\<close>


lemma eAB_v3d_defined:
  assumes "dist_v3d A B \<noteq> 0"
  shows "\<exists>e. eAB_v3d A B = Some e"
  using assms by (simp add: eAB_v3d_def dist_v3d_def Let_def)








section \<open>The reverse transformation\<close>















section \<open>What the cells change\<close>

lemma st_inv_return: "Q a \<Longrightarrow> st_inv P (st_return a) Q"
  by (simp add: st_inv_def st_return_def)

lemma st_inv_lift: "st_inv P (st_lift r) (\<lambda>_. True)"
  by (simp add: st_inv_def st_lift_def)

lemma st_inv_bind:
  assumes "st_inv P m Q" and "\<And>x. Q x \<Longrightarrow> st_inv P (f x) R"
  shows "st_inv P (st_bind m f) R"
  unfolding st_inv_def
proof (intro allI impI)
  fix s :: store assume p: "\<forall>a. P a \<longrightarrow> a < brk s"
  obtain r s1 where m: "m s = (r, s1)"
    by (cases "m s")
  from assms(1) p m have s1: "\<forall>a. P a \<longrightarrow> a < brk s1 \<and> bufs s1 a = bufs s a"
    and q: "\<forall>x. r = Inr x \<longrightarrow> Q x"
    unfolding st_inv_def by (fastforce)+
  show "(\<forall>a. P a \<longrightarrow> a < brk (snd (st_bind m f s)) \<and> bufs (snd (st_bind m f s)) a = bufs s a) \<and>
        (\<forall>x. fst (st_bind m f s) = Inr x \<longrightarrow> R x)"
  proof (cases r)
    case (Inl e)
    then show ?thesis
      using s1 by (simp add: st_bind_def m)
  next
    case (Inr x)
    then have "st_inv P (f x) R"
      using q assms(2) by simp
    then have "(\<forall>a. P a \<longrightarrow> a < brk (snd (f x s1)) \<and> bufs (snd (f x s1)) a = bufs s1 a) \<and>
        (\<forall>y. fst (f x s1) = Inr y \<longrightarrow> R y)"
      using s1 unfolding st_inv_def by blast
    then show ?thesis
      using s1 Inr by (simp add: st_bind_def m)
  qed
qed

lemma st_inv_weaken:
  "st_inv P m Q \<Longrightarrow> (\<And>x. Q x \<Longrightarrow> R x) \<Longrightarrow> st_inv P m R"
  unfolding st_inv_def by blast

lemma st_inv_alloc: "st_inv P (alloc b shp) (\<lambda>a. \<not> P (base a))"
  unfolding st_inv_def alloc_def by (auto simp: less_Suc_eq)

lemma st_inv_new_vec: "st_inv P (new_vec x) (\<lambda>a. \<not> P (base a))"
  unfolding new_vec_def by (rule st_inv_alloc)

lemma st_inv_new_mat: "st_inv P (new_mat A) (\<lambda>a. \<not> P (base a))"
  unfolding new_mat_def by (rule st_inv_alloc)

lemma st_inv_np_array: "st_inv P (np_array a) (\<lambda>c. \<not> P (base c))"
  using st_inv_alloc [of P] unfolding st_inv_def np_array_def by blast

lemma st_inv_np_reshape:
  "\<not> P (base a) \<Longrightarrow> st_inv P (np_reshape a shp) (\<lambda>g. \<not> P (base g))"
  by (simp add: st_inv_def np_reshape_def st_return_def st_lift_def)

lemma st_inv_load_vec: "st_inv P (load_vec a) (\<lambda>_. True)"
  by (simp add: st_inv_def load_vec_def split: buffer.splits)

lemma st_inv_load_mat: "st_inv P (load_mat a) (\<lambda>_. True)"
  by (simp add: st_inv_def load_mat_def split: buffer.splits list.splits)

lemma st_inv_load_bmat: "st_inv P (load_bmat a) (\<lambda>_. True)"
  by (simp add: st_inv_def load_bmat_def split: buffer.splits list.splits)

lemma st_inv_load_rows: "st_inv P (load_rows a) (\<lambda>_. True)"
  unfolding load_rows_def by (intro st_inv_bind [OF st_inv_load_mat] st_inv_return) simp

lemma st_inv_assign_all:
  "\<not> P (base a) \<Longrightarrow> st_inv P (assign_all a xs) (\<lambda>_. True)"
  by (auto simp: st_inv_def assign_all_def split: buffer.splits)

lemma st_inv_assign_entry:
  "\<not> P (base a) \<Longrightarrow> st_inv P (assign_entry a i j v) (\<lambda>_. True)"
  by (auto simp: st_inv_def assign_entry_def split: buffer.splits list.splits)

lemma st_inv_assign_bool:
  "\<not> P (base a) \<Longrightarrow> st_inv P (assign_bool a i j b) (\<lambda>_. True)"
  by (auto simp: st_inv_def assign_bool_def split: buffer.splits list.splits)

lemma changes_onlyI:
  assumes "\<And>P. (\<And>a. P a \<Longrightarrow> a \<notin> W) \<Longrightarrow> st_inv P m Q"
  shows "changes_only W m"
  unfolding changes_only_def
proof (intro allI impI)
  fix s :: store and a assume a: "a < brk s" "a \<notin> W"
  have "st_inv (\<lambda>b. b < brk s \<and> b \<notin> W) m Q"
    by (rule assms) simp
  then show "bufs (snd (m s)) a = bufs s a"
    using a unfolding st_inv_def by blast
qed

lemma st_inv_diagInv_loop:
  "\<not> P (base D) \<Longrightarrow> st_inv P (diagInv_loop_st evals ixs D) (\<lambda>_. True)"
proof (induction ixs)
  case Nil
  show ?case by (simp add: st_inv_return)
next
  case (Cons i rest)
  show ?case
    unfolding diagInv_loop_st.simps
    apply (rule st_inv_bind [OF st_inv_lift])
    apply (simp only: split: if_split)
    apply (intro conjI impI)
     apply (rule st_inv_bind [OF st_inv_lift])
     apply (rule st_inv_bind [OF st_inv_assign_entry [where P = P and a = D, OF Cons.prems]])
     apply (rule Cons.IH [OF Cons.prems])
    apply (rule Cons.IH [OF Cons.prems])
    done
qed

lemma st_inv_connectivity_loop:
  "\<not> P (base C) \<Longrightarrow> st_inv P (connectivity_loop_st d covR Z xyzGeom ps C) (\<lambda>_. True)"
proof (induction ps)
  case Nil
  show ?case by (simp add: st_inv_return)
next
  case (Cons p ps)
  obtain i j where p: "p = (i, j)" by (cases p)
  show ?case
    unfolding p connectivity_loop_st.simps Let_def
    apply (rule st_inv_bind [OF st_inv_load_rows])
    apply (rule st_inv_bind [OF st_inv_lift])
    apply (rule st_inv_bind [OF st_inv_lift])
    apply (simp only: split: if_split)
    apply (intro conjI impI)
     apply (rule st_inv_bind [OF st_inv_assign_bool [where P = P and a = C, OF Cons.prems]])
     apply (rule st_inv_bind [OF st_inv_assign_bool [where P = P and a = C, OF Cons.prems]])
     apply (rule Cons.IH [OF Cons.prems])
    apply (rule Cons.IH [OF Cons.prems])
    done
qed

lemma st_inv_connectivity_cell:
  "st_inv P (connectivity_cell d covR Z mol_geometry Natom) (\<lambda>_. True)"
  unfolding connectivity_cell_def
  apply (rule st_inv_bind [OF st_inv_np_array])
  apply (rule st_inv_bind [OF st_inv_alloc])
  apply (rule st_inv_bind [OF st_inv_connectivity_loop], assumption)
  apply (rule st_inv_return, rule TrueI)
  done

lemma st_inv_intcos_cell:
  "st_inv P (intcos_cell angle eq C xyzGeom Natom) (\<lambda>_. True)"
  unfolding intcos_cell_def
  apply (rule st_inv_bind [OF st_inv_load_bmat])
  apply (rule st_inv_bind [OF st_inv_load_rows])
  apply (rule st_inv_return, rule TrueI)
  done

lemma st_inv_gx_cell:
  "st_inv P (gx_cell psi4gradientMatrix Natom) (\<lambda>_. True)"
  unfolding gx_cell_def
  apply (rule st_inv_bind [OF st_inv_np_array])
  apply (rule st_inv_bind [OF st_inv_np_reshape], assumption)
  apply (rule st_inv_bind [OF st_inv_load_vec])
  apply (rule st_inv_bind [OF st_inv_assign_all], assumption)
  apply (rule st_inv_return, rule TrueI)
  done

lemma st_inv_symmMatInv:
  "st_inv P (symmMatInv_st eigh A) (\<lambda>_. True)"
  unfolding symmMatInv_st_def Let_def case_prod_beta
  apply (rule st_inv_bind [OF st_inv_load_mat])
  apply (rule st_inv_bind [OF st_inv_new_vec])
  apply (rule st_inv_bind [OF st_inv_new_mat])
  apply (rule st_inv_bind [OF st_inv_load_vec])
  apply (rule st_inv_bind [OF st_inv_lift])
  apply (rule st_inv_bind [OF st_inv_new_mat])
  apply (rule st_inv_bind [OF st_inv_diagInv_loop], assumption)
  apply (rule st_inv_bind [OF st_inv_load_mat])
  apply (rule st_inv_bind [OF st_inv_load_mat])
  apply (rule st_inv_bind [OF st_inv_lift])
  apply (rule st_inv_bind [OF st_inv_new_mat])
  apply (rule st_inv_bind [OF st_inv_load_mat])
  apply (rule st_inv_bind [OF st_inv_lift])
  apply (rule st_inv_weaken [OF st_inv_new_mat], rule TrueI)
  done

lemma st_inv_gq_cell:
  "st_inv P (gq_cell eigh Bm intcos xyzGeom gx) (\<lambda>_. True)"
  unfolding gq_cell_def
  apply (rule st_inv_bind [OF st_inv_load_rows])
  apply (rule st_inv_bind [OF st_inv_lift])
  apply (rule st_inv_bind [OF st_inv_new_mat])
  apply (rule st_inv_bind [OF st_inv_load_mat])
  apply (rule st_inv_bind [OF st_inv_load_vec])
  apply (rule st_inv_bind [OF st_inv_lift])
  apply (rule st_inv_bind [OF st_inv_new_vec])
  apply (rule st_inv_bind [OF st_inv_lift])
  apply (rule st_inv_bind [OF st_inv_new_mat])
  apply (rule st_inv_bind [OF st_inv_symmMatInv])
  apply (rule st_inv_bind [OF st_inv_load_mat])
  apply (rule st_inv_bind [OF st_inv_load_vec])
  apply (rule st_inv_bind [OF st_inv_lift])
  apply (rule st_inv_bind [OF st_inv_new_vec])
  apply (rule st_inv_return, rule TrueI)
  done

lemma st_inv_gx2_cell:
  "st_inv P (gx2_cell B gq) (\<lambda>_. True)"
  unfolding gx2_cell_def
  apply (rule st_inv_bind [OF st_inv_load_mat])
  apply (rule st_inv_bind [OF st_inv_load_vec])
  apply (rule st_inv_bind [OF st_inv_lift])
  apply (rule st_inv_bind [OF st_inv_new_vec])
  apply (rule st_inv_bind [OF st_inv_load_vec])
  apply (rule st_inv_bind [OF st_inv_assign_all], assumption)
  apply (rule st_inv_return, rule TrueI)
  done

lemma st_inv_notebook:
  "st_inv P (notebook d covR angle eq eigh Bm Z Natom mol_geometry psi4gradientMatrix) (\<lambda>_. True)"
  unfolding notebook_def case_prod_beta
  apply (rule st_inv_bind [OF st_inv_connectivity_cell])
  apply (rule st_inv_bind [OF st_inv_intcos_cell])
  apply (rule st_inv_bind [OF st_inv_gx_cell])
  apply (rule st_inv_bind [OF st_inv_gq_cell])
  apply (rule st_inv_bind [OF st_inv_gx2_cell])
  apply (rule st_inv_return, rule TrueI)
  done

text \<open>
  Claim C9. No cell changes an array that exists when the cell starts: the notebook as
  a whole leaves the geometry and the gradient that psi4 supplies as they are, and every
  later cell leaves the notebook's own \<^verbatim>\<open>xyzGeom\<close> and \<^verbatim>\<open>gx\<close> as they are. The stores of the
  notebook go to arrays it has allocated itself: the loop of the connectivity matrix
  changes only \<^verbatim>\<open>C\<close>, the loop of \<^verbatim>\<open>symmMatInv\<close> only \<^verbatim>\<open>diagInv\<close>, and the two noise filters
  change the copy \<^verbatim>\<open>gx\<close> of the gradient (made by \<^verbatim>\<open>np.array\<close>) and the result \<^verbatim>\<open>gx2\<close>.
\<close>

theorem cells_change_only_their_own_arrays:
  "changes_only {}
     (notebook v3d_dist covR angle eq eigh Bm Z Natom mol_geometry psi4gradientMatrix) \<and>
   changes_only {} (connectivity_cell v3d_dist covR Z mol_geometry Natom) \<and>
   changes_only {base C} (connectivity_loop_st v3d_dist covR Z xyzGeom ps C) \<and>
   changes_only {} (intcos_cell angle eq C xyzGeom Natom) \<and>
   changes_only {} (gx_cell psi4gradientMatrix Natom) \<and>
   changes_only {base diagInv} (diagInv_loop_st evals ixs diagInv) \<and>
   changes_only {} (symmMatInv_st eigh A) \<and>
   changes_only {} (gq_cell eigh Bm intcos xyzGeom gx) \<and>
   changes_only {} (gx2_cell B gq)"
proof (intro conjI)
  show "changes_only {}
     (notebook v3d_dist covR angle eq eigh Bm Z Natom mol_geometry psi4gradientMatrix)"
    by (rule changes_onlyI) (rule st_inv_notebook)
  show "changes_only {} (connectivity_cell v3d_dist covR Z mol_geometry Natom)"
    by (rule changes_onlyI) (rule st_inv_connectivity_cell)
  show "changes_only {base C} (connectivity_loop_st v3d_dist covR Z xyzGeom ps C)"
    by (rule changes_onlyI) (rule st_inv_connectivity_loop, blast)
  show "changes_only {} (intcos_cell angle eq C xyzGeom Natom)"
    by (rule changes_onlyI) (rule st_inv_intcos_cell)
  show "changes_only {} (gx_cell psi4gradientMatrix Natom)"
    by (rule changes_onlyI) (rule st_inv_gx_cell)
  show "changes_only {base diagInv} (diagInv_loop_st evals ixs diagInv)"
    by (rule changes_onlyI) (rule st_inv_diagInv_loop, blast)
  show "changes_only {} (symmMatInv_st eigh A)"
    by (rule changes_onlyI) (rule st_inv_symmMatInv)
  show "changes_only {} (gq_cell eigh Bm intcos xyzGeom gx)"
    by (rule changes_onlyI) (rule st_inv_gq_cell)
  show "changes_only {} (gx2_cell B gq)"
    by (rule changes_onlyI) (rule st_inv_gx2_cell)
qed

lemmas store_eval =
  st_bind_def st_return_def st_lift_def alloc_def new_vec_def new_mat_def np_array_def
  np_reshape_def load_vec_def load_mat_def load_rows_def load_bmat_def assign_all_def
  assign_entry_def assign_bool_def

lemma h2_connectivity_cell:
  "connectivity_cell dist_v3d [1 \<mapsto> 31 / 100] [1, 1] \<lparr>base = 0, shape = [2, 3]\<rparr> 2
     \<lparr>bufs = (\<lambda>a. Floats [])(0 := Floats [0, 0, 0, 1, 0, 0], 1 := Floats [1 / 10 ^ 17, 0, 0, 3, 0, 0]), brk = 2\<rparr>
   = (Inr (\<lparr>base = 2, shape = [2, 3]\<rparr>, \<lparr>base = 3, shape = [2, 2]\<rparr>),
      \<lparr>bufs = (\<lambda>a. Floats [])(0 := Floats [0, 0, 0, 1, 0, 0], 1 := Floats [1 / 10 ^ 17, 0, 0, 3, 0, 0], 2 := Floats [0, 0, 0, 1, 0, 0], 3 := Bools [False, True, True, False]), brk = 4\<rparr>)"
  by (simp add: connectivity_cell_def store_eval combinations2_def upt_conv_Cons covR_lookup_def
      bond_factor_def bohr_per_angstrom_def dist_v3d_def norm3_def dot3_def sub3_def Let_def
      lessThan_Suc numeral_3_eq_3 numeral_2_eq_2 mk_mat_def)

lemma h2_intcos_cell:
  "intcos_cell angle_v3d intco_eq \<lparr>base = 3, shape = [2, 2]\<rparr> \<lparr>base = 2, shape = [2, 3]\<rparr> 2
     \<lparr>bufs = (\<lambda>a. Floats [])(0 := Floats [0, 0, 0, 1, 0, 0], 1 := Floats [1 / 10 ^ 17, 0, 0, 3, 0, 0], 2 := Floats [0, 0, 0, 1, 0, 0], 3 := Bools [False, True, True, False]), brk = 4\<rparr>
   = (Inr [STRE 0 1],
      \<lparr>bufs = (\<lambda>a. Floats [])(0 := Floats [0, 0, 0, 1, 0, 0], 1 := Floats [1 / 10 ^ 17, 0, 0, 3, 0, 0], 2 := Floats [0, 0, 0, 1, 0, 0], 3 := Bools [False, True, True, False]), brk = 4\<rparr>)"
  by (simp add: intcos_cell_def store_eval loop_eval numeral_2_eq_2)

lemma h2_gx_cell:
  "gx_cell \<lparr>base = 1, shape = [2, 3]\<rparr> 2
     \<lparr>bufs = (\<lambda>a. Floats [])(0 := Floats [0, 0, 0, 1, 0, 0], 1 := Floats [1 / 10 ^ 17, 0, 0, 3, 0, 0], 2 := Floats [0, 0, 0, 1, 0, 0], 3 := Bools [False, True, True, False]), brk = 4\<rparr>
   = (Inr \<lparr>base = 4, shape = [6]\<rparr>,
      \<lparr>bufs = (\<lambda>a. Floats [])(0 := Floats [0, 0, 0, 1, 0, 0], 1 := Floats [1 / 10 ^ 17, 0, 0, 3, 0, 0], 2 := Floats [0, 0, 0, 1, 0, 0], 3 := Bools [False, True, True, False], 4 := Floats [0, 0, 0, 3, 0, 0]), brk = 5\<rparr>)"
  by (simp add: gx_cell_def store_eval remove_noise_def)


theorem cells_change_only_their_own_arrays_witness:
  "fst (gx_cell \<lparr>base = 1, shape = [2, 3]\<rparr> 2
     \<lparr>bufs = (\<lambda>a. Floats [])(0 := Floats [0, 0, 0, 1, 0, 0], 1 := Floats [1 / 10 ^ 17, 0, 0, 3, 0, 0], 2 := Floats [0, 0, 0, 1, 0, 0], 3 := Bools [False, True, True, False]), brk = 4\<rparr>) = Inr \<lparr>base = 4, shape = [6]\<rparr> \<and>
   bufs (snd (gx_cell \<lparr>base = 1, shape = [2, 3]\<rparr> 2
     \<lparr>bufs = (\<lambda>a. Floats [])(0 := Floats [0, 0, 0, 1, 0, 0], 1 := Floats [1 / 10 ^ 17, 0, 0, 3, 0, 0], 2 := Floats [0, 0, 0, 1, 0, 0], 3 := Bools [False, True, True, False]), brk = 4\<rparr>)) 4 = Floats [0, 0, 0, 3, 0, 0] \<and>
   bufs (snd (gx_cell \<lparr>base = 1, shape = [2, 3]\<rparr> 2
     \<lparr>bufs = (\<lambda>a. Floats [])(0 := Floats [0, 0, 0, 1, 0, 0], 1 := Floats [1 / 10 ^ 17, 0, 0, 3, 0, 0], 2 := Floats [0, 0, 0, 1, 0, 0], 3 := Bools [False, True, True, False]), brk = 4\<rparr>)) 1 = Floats [1 / 10 ^ 17, 0, 0, 3, 0, 0] \<and>
   bufs (snd (notebook dist_v3d [1 \<mapsto> 31 / 100] angle_v3d intco_eq
          (\<lambda>A. ([2], \<lparr>nrows = 1, ncols = 1, rows = [[1]]\<rparr>)) (Bmat (\<lambda>x c. None)) [1, 1] 2
          \<lparr>base = 0, shape = [2, 3]\<rparr> \<lparr>base = 1, shape = [2, 3]\<rparr>
     \<lparr>bufs = (\<lambda>a. Floats [])(0 := Floats [0, 0, 0, 1, 0, 0], 1 := Floats [1 / 10 ^ 17, 0, 0, 3, 0, 0]), brk = 2\<rparr>)) 0 = Floats [0, 0, 0, 1, 0, 0] \<and>
   bufs (snd (notebook dist_v3d [1 \<mapsto> 31 / 100] angle_v3d intco_eq
          (\<lambda>A. ([2], \<lparr>nrows = 1, ncols = 1, rows = [[1]]\<rparr>)) (Bmat (\<lambda>x c. None)) [1, 1] 2
          \<lparr>base = 0, shape = [2, 3]\<rparr> \<lparr>base = 1, shape = [2, 3]\<rparr>
     \<lparr>bufs = (\<lambda>a. Floats [])(0 := Floats [0, 0, 0, 1, 0, 0], 1 := Floats [1 / 10 ^ 17, 0, 0, 3, 0, 0]), brk = 2\<rparr>)) 1 = Floats [1 / 10 ^ 17, 0, 0, 3, 0, 0]"
proof -
  let ?s0 = "\<lparr>bufs = (\<lambda>a. Floats [])(0 := Floats [0, 0, 0, 1, 0, 0], 1 := Floats [1 / 10 ^ 17, 0, 0, 3, 0, 0]), brk = 2\<rparr>"
  let ?s1 = "\<lparr>bufs = (\<lambda>a. Floats [])(0 := Floats [0, 0, 0, 1, 0, 0], 1 := Floats [1 / 10 ^ 17, 0, 0, 3, 0, 0], 2 := Floats [0, 0, 0, 1, 0, 0], 3 := Bools [False, True, True, False]), brk = 4\<rparr>"
  let ?nb = "notebook dist_v3d [1 \<mapsto> 31 / 100] angle_v3d intco_eq
          (\<lambda>A. ([2], \<lparr>nrows = 1, ncols = 1, rows = [[1]]\<rparr>)) (Bmat (\<lambda>x c. None)) [1, 1] 2
          \<lparr>base = 0, shape = [2, 3]\<rparr> \<lparr>base = 1, shape = [2, 3]\<rparr>"
  let ?gx = "gx_cell \<lparr>base = 1, shape = [2, 3]\<rparr> 2"
  note th = cells_change_only_their_own_arrays
    [where v3d_dist = dist_v3d and covR = "[1 \<mapsto> 31 / 100]" and angle = angle_v3d
       and eq = intco_eq and eigh = "\<lambda>A. ([2], \<lparr>nrows = 1, ncols = 1, rows = [[1]]\<rparr>)"
       and Bm = "Bmat (\<lambda>x c. None)" and Z = "[1, 1]" and Natom = 2
       and mol_geometry = "\<lparr>base = 0, shape = [2, 3]\<rparr>"
       and psi4gradientMatrix = "\<lparr>base = 1, shape = [2, 3]\<rparr>"]
  from th have nb: "changes_only {} ?nb" and gx: "changes_only {} ?gx"
    by blast+
  have "bufs (snd (?nb ?s0)) 0 = bufs ?s0 0" "bufs (snd (?nb ?s0)) 1 = bufs ?s0 1"
    using nb unfolding changes_only_def by simp_all
  then have n0: "bufs (snd (?nb ?s0)) 0 = Floats [0, 0, 0, 1, 0, 0]"
    and n1: "bufs (snd (?nb ?s0)) 1 = Floats [1 / 10 ^ 17, 0, 0, 3, 0, 0]"
    by simp_all
  have "bufs (snd (?gx ?s1)) 1 = bufs ?s1 1"
    using gx unfolding changes_only_def by simp
  then have g1: "bufs (snd (?gx ?s1)) 1 = Floats [1 / 10 ^ 17, 0, 0, 3, 0, 0]"
    by simp
  have "fst (?gx ?s1) = Inr \<lparr>base = 4, shape = [6]\<rparr>"
    and "bufs (snd (?gx ?s1)) 4 = Floats [0, 0, 0, 3, 0, 0]"
    unfolding h2_gx_cell by simp_all
  with n0 n1 g1 show ?thesis
    by blast
qed

end
